theory Spec2Isabelle
  imports Main "HOL-Library.Multiset"
begin

section \<open>Data model of the comment store\<close>

text \<open>
  The stored procedures of \<^verbatim>\<open>20250813043841_wispy_bridge.sql\<close> and
  \<^verbatim>\<open>20250814034445_soft_queen.sql\<close> are embedded as functions on an explicit store.
  SQL \<^verbatim>\<open>NULL\<close> is \<open>None\<close>; a raised exception or a violated constraint is
  \<open>Inl\<close> of an error, and because PostgreSQL rolls the whole call back, an \<open>Inl\<close>
  result carries no store: the caller keeps the store it had.  A table is the list of its
  rows in physical order.  \<^verbatim>\<open>uuid\<close> values are natural numbers, \<^verbatim>\<open>timestamptz\<close>
  values are integers, \<^verbatim>\<open>text\<close> is \<open>string\<close>.  The value of \<^verbatim>\<open>now()\<close> is an
  argument of each procedure.
\<close>

type_synonym uuid = nat
type_synonym timestamptz = int

datatype series_status = ongoing | completed

datatype error =
    Invalid_parameters
  | Comment_content_is_required
  | Author_name_is_required
  | Series_ID_is_required
  | Series_not_found
  | Episode_not_found
  | Parent_comment_not_found
  | Unauthorized
  | check_violation
  | not_null_violation
  | unique_violation
  | foreign_key_violation
  | numeric_value_out_of_range
  | invalid_row_count_in_limit_clause
  | invalid_row_count_in_result_offset_clause
  | ambiguous_column

text \<open>
  Modelled from the spec: the tables \<^verbatim>\<open>public.series\<close> and \<^verbatim>\<open>public.episodes\<close> are
  created by a migration that is not among the sources.  A series row has the columns the
  procedures read or write (\<^verbatim>\<open>id\<close>, \<^verbatim>\<open>status\<close>, \<^verbatim>\<open>updated_at\<close>) and, of the
  others the spec lists, the title and the view counter; an episode row has its
  \<^verbatim>\<open>id\<close> and the \<^verbatim>\<open>series_id\<close> of the one series it belongs to.
\<close>

record series_row =
  s_id :: uuid
  s_title :: string
  s_views :: int
  status :: series_status
  s_updated_at :: timestamptz

record episode_row =
  e_id :: uuid
  e_series_id :: uuid

record comment =
  c_id :: uuid
  content :: string
  author_name :: string
  author_email :: "string option"
  series_id :: uuid
  episode_id :: "uuid option"
  parent_id :: "uuid option"
  likes_count :: int
  created_at :: timestamptz
  updated_at :: timestamptz

record comment_like =
  l_id :: uuid
  comment_id :: uuid
  user_identifier :: string
  l_created_at :: timestamptz

record store =
  series :: "series_row list"
  episodes :: "episode_row list"
  comments :: "comment list"
  comment_likes :: "comment_like list"

subsection \<open>Builtins of the database\<close>

text \<open>\<^verbatim>\<open>trim(s)\<close> with no character list removes spaces (U+0020) from both ends.\<close>

definition trim :: "string \<Rightarrow> string" where
  "trim s = rev (dropWhile (\<lambda>c. c = CHR '' '') (rev (dropWhile (\<lambda>c. c = CHR '' '') s)))"

text \<open>\<^verbatim>\<open>p IS NULL OR length(trim(p)) = 0\<close>\<close>

definition null_or_blank :: "string option \<Rightarrow> bool" where
  "null_or_blank p = (case p of None \<Rightarrow> True | Some t \<Rightarrow> length (trim t) = 0)"

text \<open>
  \<^verbatim>\<open>gen_random_uuid()\<close> is a builtin; a collision with a key of the table is taken to
  be impossible, so the model returns a key that the table does not use.
\<close>

definition gen_random_uuid :: "uuid list \<Rightarrow> uuid" where
  "gen_random_uuid used = Suc (fold max used 0)"

text \<open>The range of the \<^verbatim>\<open>integer\<close> column type; arithmetic that leaves it raises.\<close>

definition int4_ok :: "int \<Rightarrow> bool" where
  "int4_ok x = (- 2147483648 \<le> x \<and> x \<le> 2147483647)"

text \<open>
  Modelled from the spec: the trigger function \<^verbatim>\<open>public.update_updated_at_column()\<close>,
  which \<^verbatim>\<open>trg_comments_updated_at\<close> runs before every update of a comment row, is
  defined in a migration that is not among the sources.  It refreshes the row's
  \<^verbatim>\<open>updated_at\<close> timestamp and changes nothing else.
\<close>

definition update_updated_at_column :: "timestamptz \<Rightarrow> comment \<Rightarrow> comment" where
  "update_updated_at_column now new = new\<lparr>updated_at := now\<rparr>"

section \<open>Like toggle\<close>

record toggle_result =
  action :: string
  new_likes_count :: "int option"
  user_liked :: bool

text \<open>
  \<^verbatim>\<open>INSERT INTO public.comment_likes (comment_id, user_identifier) VALUES (..)\<close>:
  the column check, then the primary key and the \<^verbatim>\<open>UNIQUE(comment_id, user_identifier)\<close>
  index, then the foreign key on \<^verbatim>\<open>comments(id)\<close>.
\<close>

definition insert_comment_like :: "store \<Rightarrow> timestamptz \<Rightarrow> uuid \<Rightarrow> string \<Rightarrow> error + store" where
  "insert_comment_like s now cid uid =
     (let new = \<lparr>l_id = gen_random_uuid (map l_id (comment_likes s)), comment_id = cid,
                  user_identifier = uid, l_created_at = now\<rparr>
      in if length (trim uid) = 0 then Inl check_violation
         else if list_ex (\<lambda>l. l_id l = l_id new) (comment_likes s) then Inl unique_violation
         else if list_ex (\<lambda>l. comment_id l = cid \<and> user_identifier l = uid) (comment_likes s)
           then Inl unique_violation
         else if list_ex (\<lambda>c. c_id c = cid) (comments s)
           then Inr (s\<lparr>comment_likes := comment_likes s @ [new]\<rparr>)
         else Inl foreign_key_violation)"

text \<open>
  \<^verbatim>\<open>UPDATE public.comments SET likes_count = likes_count + d, updated_at = now()
  WHERE id = cid RETURNING likes_count INTO new_likes_count\<close>: every row with that id is
  rewritten and passed through the trigger; the variable receives the value of the first
  such row, or stays null when there is none.  The columns under a \<^verbatim>\<open>CHECK\<close> are not
  written, so those checks are not run again.
\<close>

definition update_likes_count ::
  "store \<Rightarrow> timestamptz \<Rightarrow> uuid \<Rightarrow> int \<Rightarrow> error + (int option \<times> store)" where
  "update_likes_count s now cid d =
     (if list_ex (\<lambda>c. c_id c = cid \<and> \<not> int4_ok (likes_count c + d)) (comments s)
      then Inl numeric_value_out_of_range
      else let cs = map (\<lambda>c. if c_id c = cid
                              then update_updated_at_column now
                                     (c\<lparr>likes_count := likes_count c + d, updated_at := now\<rparr>)
                              else c) (comments s)
           in Inr (map_option likes_count (find (\<lambda>c. c_id c = cid) cs), s\<lparr>comments := cs\<rparr>))"

definition like_exists :: "store \<Rightarrow> uuid \<Rightarrow> string \<Rightarrow> bool" where
  "like_exists s cid uid =
     list_ex (\<lambda>l. comment_id l = cid \<and> user_identifier l = uid) (comment_likes s)"

definition toggle_comment_like ::
  "store \<Rightarrow> timestamptz \<Rightarrow> uuid option \<Rightarrow> string option \<Rightarrow> error + (toggle_result \<times> store)" where
  "toggle_comment_like s now p_comment_id p_user_identifier =
     (case p_comment_id of
        None \<Rightarrow> Inl Invalid_parameters
      | Some cid \<Rightarrow>
          if null_or_blank p_user_identifier then Inl Invalid_parameters
          else let uid = the p_user_identifier in
            if like_exists s cid uid then
              (let s1 = s\<lparr>comment_likes :=
                          filter (\<lambda>l. \<not> (comment_id l = cid \<and> user_identifier l = uid))
                            (comment_likes s)\<rparr>
               in case update_likes_count s1 now cid (- 1) of
                    Inl e \<Rightarrow> Inl e
                  | Inr (n, s2) \<Rightarrow>
                      Inr (\<lparr>action = ''unliked'', new_likes_count = n, user_liked = False\<rparr>, s2))
            else
              (case insert_comment_like s now cid uid of
                 Inl e \<Rightarrow> Inl e
               | Inr s1 \<Rightarrow>
                   (case update_likes_count s1 now cid 1 of
                      Inl e \<Rightarrow> Inl e
                    | Inr (n, s2) \<Rightarrow>
                        Inr (\<lparr>action = ''liked'', new_likes_count = n, user_liked = True\<rparr>, s2))))"

section \<open>Comment creation\<close>

text \<open>
  The column check on \<^verbatim>\<open>author_email\<close> is
  \<^verbatim>\<open>author_email ~* '^[A-Za-z0-9._%+-]+@[A-Za-z0-9.-]+\.[A-Za-z]{2,}$'\<close>.
  Neither bracket expression holds \<^verbatim>\<open>@\<close>, so a matching string has exactly one
  \<^verbatim>\<open>@\<close>; the last bracket expression does not hold the dot, so the dot of the
  pattern is the last dot of the string.  The matcher below splits there.
\<close>

definition alpha_char :: "char \<Rightarrow> bool" where
  "alpha_char c = (c \<in> set ''ABCDEFGHIJKLMNOPQRSTUVWXYZabcdefghijklmnopqrstuvwxyz'')"

definition alnum_char :: "char \<Rightarrow> bool" where
  "alnum_char c = (alpha_char c \<or> c \<in> set ''0123456789'')"

definition email_local_char :: "char \<Rightarrow> bool" where
  "email_local_char c = (alnum_char c \<or> c \<in> set ''._%+-'')"

definition email_domain_char :: "char \<Rightarrow> bool" where
  "email_domain_char c = (alnum_char c \<or> c \<in> set ''.-'')"

definition email_matches :: "string \<Rightarrow> bool" where
  "email_matches e =
     (let local_part = takeWhile (\<lambda>c. c \<noteq> CHR ''@'') e;
          rest = dropWhile (\<lambda>c. c \<noteq> CHR ''@'') e;
          dom = tl rest;
          tld = rev (takeWhile (\<lambda>c. c \<noteq> CHR ''.'') (rev dom));
          host_dot = rev (dropWhile (\<lambda>c. c \<noteq> CHR ''.'') (rev dom));
          host = butlast host_dot
      in rest \<noteq> [] \<and> local_part \<noteq> [] \<and> list_all email_local_char local_part
         \<and> host_dot \<noteq> [] \<and> host \<noteq> [] \<and> list_all email_domain_char host
         \<and> 2 \<le> length tld \<and> list_all alpha_char tld)"

text \<open>The three column checks of \<^verbatim>\<open>public.comments\<close>.\<close>

definition comment_checks :: "comment \<Rightarrow> bool" where
  "comment_checks c =
     ((length (trim (content c)) > 0 \<and> length (content c) \<le> 2000)
      \<and> (length (trim (author_name c)) > 0 \<and> length (author_name c) \<le> 100)
      \<and> (case author_email c of None \<Rightarrow> True | Some e \<Rightarrow> email_matches e))"

text \<open>
  \<^verbatim>\<open>INSERT INTO public.comments (..) VALUES (..) RETURNING *\<close>: the defaults fill
  \<^verbatim>\<open>id\<close>, \<^verbatim>\<open>likes_count\<close>, \<^verbatim>\<open>created_at\<close> and \<^verbatim>\<open>updated_at\<close>; then the column
  checks, the primary key, and the three foreign keys.
\<close>

definition insert_comment ::
  "store \<Rightarrow> timestamptz \<Rightarrow> string \<Rightarrow> string \<Rightarrow> string option \<Rightarrow> uuid \<Rightarrow> uuid option \<Rightarrow> uuid option
     \<Rightarrow> error + (comment \<times> store)" where
  "insert_comment s now v_content v_author_name v_author_email v_series_id v_episode_id v_parent_id =
     (let new = \<lparr>c_id = gen_random_uuid (map c_id (comments s)),
                  content = v_content, author_name = v_author_name,
                  author_email = v_author_email, series_id = v_series_id,
                  episode_id = v_episode_id, parent_id = v_parent_id,
                  likes_count = 0, created_at = now, updated_at = now\<rparr>
      in if \<not> comment_checks new then Inl check_violation
         else if list_ex (\<lambda>c. c_id c = c_id new) (comments s) then Inl unique_violation
         else if \<not> list_ex (\<lambda>r. s_id r = v_series_id) (series s) then Inl foreign_key_violation
         else if (case v_episode_id of None \<Rightarrow> False
                  | Some e \<Rightarrow> \<not> list_ex (\<lambda>r. e_id r = e) (episodes s))
           then Inl foreign_key_violation
         else if (case v_parent_id of None \<Rightarrow> False
                  | Some p \<Rightarrow> \<not> list_ex (\<lambda>c. c_id c = p) (comments s))
           then Inl foreign_key_violation
         else Inr (new, s\<lparr>comments := comments s @ [new]\<rparr>))"

definition create_comment ::
  "store \<Rightarrow> timestamptz \<Rightarrow> string option \<Rightarrow> string option \<Rightarrow> string option \<Rightarrow> uuid option
     \<Rightarrow> uuid option \<Rightarrow> uuid option \<Rightarrow> error + (comment \<times> store)" where
  "create_comment s now p_content p_author_name p_author_email p_series_id p_episode_id p_parent_id =
     (if null_or_blank p_content then Inl Comment_content_is_required
      else if null_or_blank p_author_name then Inl Author_name_is_required
      else case p_series_id of
        None \<Rightarrow> Inl Series_ID_is_required
      | Some sid \<Rightarrow>
          if \<not> list_ex (\<lambda>r. s_id r = sid) (series s) then Inl Series_not_found
          else if (case p_episode_id of None \<Rightarrow> False
                   | Some e \<Rightarrow> \<not> list_ex (\<lambda>r. e_id r = e \<and> e_series_id r = sid) (episodes s))
            then Inl Episode_not_found
          else if (case p_parent_id of None \<Rightarrow> False
                   | Some p \<Rightarrow> \<not> list_ex (\<lambda>c. c_id c = p \<and> series_id c = sid) (comments s))
            then Inl Parent_comment_not_found
          else insert_comment s now (trim (the p_content)) (trim (the p_author_name))
                 (if \<not> null_or_blank p_author_email then Some (trim (the p_author_email)) else None)
                 sid p_episode_id p_parent_id)"

section \<open>Paginated retrieval with reply counts\<close>

record comment_stats = comment +
  reply_count :: nat

text \<open>
  The subquery \<^verbatim>\<open>SELECT parent_id, COUNT(*) FROM public.comments WHERE parent_id IS NOT
  NULL GROUP BY parent_id\<close>: one row per distinct non-null parent id.
\<close>

definition reply_counts :: "comment list \<Rightarrow> (uuid \<times> nat) list" where
  "reply_counts cs =
     (let replies = filter (\<lambda>c. parent_id c \<noteq> None) cs
      in map (\<lambda>p. (p, length (filter (\<lambda>c. parent_id c = Some p) replies)))
           (remdups (map (\<lambda>c. the (parent_id c)) replies)))"

text \<open>
  \<^verbatim>\<open>FROM public.comments c LEFT JOIN (..) reply_counts ON c.id = reply_counts.parent_id\<close>:
  a comment is paired with every matching row of the subquery, or once with null.
\<close>

definition left_join_reply_counts :: "comment list \<Rightarrow> (comment \<times> nat option) list" where
  "left_join_reply_counts cs =
     concat (map (\<lambda>c. case filter (\<lambda>(p, n). c_id c = p) (reply_counts cs) of
                         [] \<Rightarrow> [(c, None)]
                       | ms \<Rightarrow> map (\<lambda>(p, n). (c, Some n)) ms) cs)"

text \<open>The select list, with \<^verbatim>\<open>COALESCE(reply_counts.reply_count, 0)\<close>.\<close>

definition select_row :: "comment \<times> nat option \<Rightarrow> comment_stats" where
  "select_row cn =
     comment.extend (fst cn)
       (comment_stats.fields (case snd cn of None \<Rightarrow> 0 | Some n \<Rightarrow> n))"

text \<open>
  \<^verbatim>\<open>WHERE c.series_id = p_series_id AND (p_episode_id IS NULL OR c.episode_id =
  p_episode_id) AND c.parent_id IS NULL\<close>; a comparison with null is not true.
\<close>

definition where_clause :: "uuid option \<Rightarrow> uuid option \<Rightarrow> comment \<Rightarrow> bool" where
  "where_clause p_series_id p_episode_id c =
     (Some (series_id c) = p_series_id
      \<and> (p_episode_id = None \<or> (episode_id c \<noteq> None \<and> episode_id c = p_episode_id))
      \<and> parent_id c = None)"

text \<open>
  The statement after \<^verbatim>\<open>RETURN QUERY\<close>, as it would run with its names resolved to the
  columns: the join, the filter, then
  \<^verbatim>\<open>ORDER BY c.created_at DESC LIMIT p_limit OFFSET p_offset\<close>.  SQL leaves the order
  of rows with equal \<^verbatim>\<open>created_at\<close> open; the model keeps their physical order.  A null
  offset is 0 and a null limit is no limit; a negative one raises, the offset first.
\<close>

definition comments_query ::
  "store \<Rightarrow> uuid option \<Rightarrow> uuid option \<Rightarrow> int option \<Rightarrow> int option \<Rightarrow> error + comment_stats list" where
  "comments_query s p_series_id p_episode_id p_limit p_offset =
     (let joined = left_join_reply_counts (comments s);
          selected = filter (\<lambda>cn. where_clause p_series_id p_episode_id (fst cn)) joined;
          ordered = sort_key (\<lambda>cn. - created_at (fst cn)) selected
      in if (case p_offset of None \<Rightarrow> False | Some off \<Rightarrow> off < 0)
           then Inl invalid_row_count_in_result_offset_clause
         else if (case p_limit of None \<Rightarrow> False | Some lim \<Rightarrow> lim < 0)
           then Inl invalid_row_count_in_limit_clause
         else let skipped = drop (case p_offset of None \<Rightarrow> 0 | Some off \<Rightarrow> nat off) ordered;
                  limited = (case p_limit of None \<Rightarrow> skipped | Some lim \<Rightarrow> take (nat lim) skipped)
              in Inr (map select_row limited))"

text \<open>
  The function is \<^verbatim>\<open>LANGUAGE plpgsql\<close> and \<^verbatim>\<open>RETURNS TABLE (..)\<close>, so every column of
  the result is also a variable of the body.  The body has no \<^verbatim>\<open>#variable_conflict\<close>
  directive, and under the default, \<^verbatim>\<open>error\<close>, an unqualified name of the statement
  that is both such a variable and a column of a table in scope is rejected as ambiguous
  when the statement is first analysed, before any row is read.  Every column of the outer
  select is written \<^verbatim>\<open>c.\<close> or \<^verbatim>\<open>reply_counts.\<close>; the subquery names
  \<^verbatim>\<open>parent_id\<close> bare, in its select list, its \<^verbatim>\<open>WHERE\<close> and its \<^verbatim>\<open>GROUP BY\<close>.
\<close>

definition returns_table_columns :: "string list" where
  "returns_table_columns =
     [''id'', ''content'', ''author_name'', ''author_email'', ''series_id'', ''episode_id'',
      ''parent_id'', ''likes_count'', ''reply_count'', ''created_at'', ''updated_at'']"

definition comments_columns :: "string list" where
  "comments_columns =
     [''id'', ''content'', ''author_name'', ''author_email'', ''series_id'', ''episode_id'',
      ''parent_id'', ''likes_count'', ''created_at'', ''updated_at'']"

definition unqualified_references :: "string list" where
  "unqualified_references = [''parent_id'', ''parent_id'', ''parent_id'']"

definition ambiguous_reference :: "string \<Rightarrow> bool" where
  "ambiguous_reference n = (n \<in> set returns_table_columns \<and> n \<in> set comments_columns)"

definition get_comments_with_stats ::
  "store \<Rightarrow> uuid option \<Rightarrow> uuid option \<Rightarrow> int option \<Rightarrow> int option \<Rightarrow> error + comment_stats list" where
  "get_comments_with_stats s p_series_id p_episode_id p_limit p_offset =
     (if list_ex ambiguous_reference unqualified_references then Inl ambiguous_column
      else comments_query s p_series_id p_episode_id p_limit p_offset)"

text \<open>
  A call may leave out the parameters declared with a default:
  \<^verbatim>\<open>p_episode_id uuid DEFAULT NULL, p_limit integer DEFAULT 50, p_offset integer DEFAULT 0\<close>.
\<close>

datatype 'a arg = Omitted | Given 'a

definition arg_or :: "'a \<Rightarrow> 'a arg \<Rightarrow> 'a" where
  "arg_or d a = (case a of Omitted \<Rightarrow> d | Given v \<Rightarrow> v)"

definition call_get_comments_with_stats ::
  "store \<Rightarrow> uuid option \<Rightarrow> uuid option arg \<Rightarrow> int option arg \<Rightarrow> int option arg
     \<Rightarrow> error + comment_stats list" where
  "call_get_comments_with_stats s p_series_id p_episode_id p_limit p_offset =
     get_comments_with_stats s p_series_id (arg_or None p_episode_id)
       (arg_or (Some 50) p_limit) (arg_or (Some 0) p_offset)"

section \<open>Admin series-status update\<close>

text \<open>
  \<^verbatim>\<open>IF admin_code <> 'Shivam2008' THEN RAISE\<close>: the comparison of a null code is null,
  and \<^verbatim>\<open>IF\<close> takes a null condition as not true.  The \<^verbatim>\<open>status\<close> column is
  \<^verbatim>\<open>NOT NULL\<close>, so writing a null status into a row raises.
\<close>

definition admin_update_series_status ::
  "store \<Rightarrow> timestamptz \<Rightarrow> string option \<Rightarrow> uuid option \<Rightarrow> series_status option \<Rightarrow> error + store" where
  "admin_update_series_status s now admin_code p_series_id p_status =
     (if (case admin_code of None \<Rightarrow> False | Some code \<Rightarrow> code \<noteq> ''Shivam2008'')
        then Inl Unauthorized
      else let found = list_ex (\<lambda>r. Some (s_id r) = p_series_id) (series s)
           in if found \<and> p_status = None then Inl not_null_violation
              else if \<not> found then Inl Series_not_found
              else Inr (s\<lparr>series :=
                          map (\<lambda>r. if Some (s_id r) = p_series_id
                                   then r\<lparr>status := the p_status, s_updated_at := now\<rparr>
                                   else r) (series s)\<rparr>))"

section \<open>Reachable stores\<close>

text \<open>
  The migration creates \<^verbatim>\<open>comments\<close> and \<^verbatim>\<open>comment_likes\<close> empty; the series and
  episodes come from elsewhere.  From there a store changes by a call of one of the three
  writing procedures that returns.
\<close>

inductive reachable :: "store \<Rightarrow> bool" where
  initial: "comments s = [] \<Longrightarrow> comment_likes s = [] \<Longrightarrow> reachable s"
| created: "reachable s \<Longrightarrow> create_comment s now p1 p2 p3 p4 p5 p6 = Inr (r, s') \<Longrightarrow> reachable s'"
| toggled: "reachable s \<Longrightarrow> toggle_comment_like s now p1 p2 = Inr (t, s') \<Longrightarrow> reachable s'"
| admin: "reachable s \<Longrightarrow> admin_update_series_status s now p1 p2 p3 = Inr s' \<Longrightarrow> reachable s'"

section \<open>Predicates on stores\<close>

text \<open>
  The \<^verbatim>\<open>UNIQUE(comment_id, user_identifier)\<close> constraint as a predicate on the store.
\<close>

definition likes_unique :: "store \<Rightarrow> bool" where
  "likes_unique s = distinct (map (\<lambda>l. (comment_id l, user_identifier l)) (comment_likes s))"

text \<open>
  The \<^verbatim>\<open>likes_count\<close> column of the row with the given id.
\<close>

definition stored_likes_count :: "store \<Rightarrow> uuid \<Rightarrow> int option" where
  "stored_likes_count s cid = map_option likes_count (find (\<lambda>c. c_id c = cid) (comments s))"

text \<open>
  Every reply has its parent among the comments, under the series of the reply: what the
  parent check of \<open>create_comment\<close> establishes.
\<close>

definition parents_in_series :: "store \<Rightarrow> bool" where
  "parents_in_series s =
     list_all (\<lambda>c. case parent_id c of None \<Rightarrow> True
                   | Some p \<Rightarrow> list_ex (\<lambda>q. c_id q = p \<and> series_id q = series_id c) (comments s))
       (comments s)"

text \<open>
  The two-level reply tree of the spec's data model: every reply has a parent that is
  itself a top-level comment.
\<close>

definition two_level :: "store \<Rightarrow> bool" where
  "two_level s =
     list_all (\<lambda>c. case parent_id c of None \<Rightarrow> True
                   | Some p \<Rightarrow> list_ex (\<lambda>q. c_id q = p \<and> parent_id q = None) (comments s))
       (comments s)"

section \<open>Names for parts of the procedures, used in the proofs\<close>

text \<open>
  The row rewrite of \<open>update_likes_count\<close> after the trigger has run.
\<close>

definition bump :: "uuid \<Rightarrow> int \<Rightarrow> timestamptz \<Rightarrow> comment \<Rightarrow> comment" where
  "bump cid d now x = (if c_id x = cid then x\<lparr>likes_count := likes_count x + d, updated_at := now\<rparr> else x)"

text \<open>
  The row that \<open>create_comment\<close> hands to the insert, and its three existence checks.
\<close>

definition new_comment ::
  "store \<Rightarrow> timestamptz \<Rightarrow> string option \<Rightarrow> string option \<Rightarrow> string option \<Rightarrow> uuid
     \<Rightarrow> uuid option \<Rightarrow> uuid option \<Rightarrow> comment" where
  "new_comment s now p_content p_author_name p_author_email sid p_episode_id p_parent_id =
     \<lparr>c_id = gen_random_uuid (map c_id (comments s)),
      content = trim (the p_content), author_name = trim (the p_author_name),
      author_email = (if null_or_blank p_author_email then None else Some (trim (the p_author_email))),
      series_id = sid, episode_id = p_episode_id, parent_id = p_parent_id,
      likes_count = 0, created_at = now, updated_at = now\<rparr>"

definition references_ok :: "store \<Rightarrow> uuid \<Rightarrow> uuid option \<Rightarrow> uuid option \<Rightarrow> bool" where
  "references_ok s sid p_episode_id p_parent_id =
     (list_ex (\<lambda>r. s_id r = sid) (series s)
      \<and> (case p_episode_id of None \<Rightarrow> True
          | Some e \<Rightarrow> list_ex (\<lambda>r. e_id r = e \<and> e_series_id r = sid) (episodes s))
      \<and> (case p_parent_id of None \<Rightarrow> True
          | Some p \<Rightarrow> list_ex (\<lambda>c. c_id c = p \<and> series_id c = sid) (comments s)))"

text \<open>
  The number of replies to a comment, the value the left join pairs a comment with, the
  row returned for a comment, and the \<^verbatim>\<open>OFFSET\<close> and \<^verbatim>\<open>LIMIT\<close> step.
\<close>

definition replies_of :: "comment list \<Rightarrow> uuid \<Rightarrow> nat" where
  "replies_of cs k = length (filter (\<lambda>c. parent_id c = Some k) cs)"

definition join_count :: "comment list \<Rightarrow> comment \<Rightarrow> nat option" where
  "join_count cs c = (if replies_of cs (c_id c) \<noteq> 0 then Some (replies_of cs (c_id c)) else None)"

definition stats_row :: "comment list \<Rightarrow> comment \<Rightarrow> comment_stats" where
  "stats_row cs c = comment.extend c (comment_stats.fields (replies_of cs (c_id c)))"

definition paginate :: "int option \<Rightarrow> int option \<Rightarrow> 'a list \<Rightarrow> 'a list" where
  "paginate p_limit p_offset xs =
     (let skipped = drop (case p_offset of None \<Rightarrow> 0 | Some off \<Rightarrow> nat off) xs
      in case p_limit of None \<Rightarrow> skipped | Some lim \<Rightarrow> take (nat lim) skipped)"

section \<open>Stores used in the examples\<close>

definition empty_store :: store where
  "empty_store =
     \<lparr>series = [\<lparr>s_id = 1, s_title = ''S'', s_views = 0, status = ongoing, s_updated_at = 0\<rparr>],
      episodes = [\<lparr>e_id = 1, e_series_id = 1\<rparr>],
      comments = [], comment_likes = []\<rparr>"

definition demo_comment :: comment where
  "demo_comment = \<lparr>c_id = 1, content = ''Great episode!'', author_name = ''Alex'',
                   author_email = None, series_id = 1, episode_id = None, parent_id = None,
                   likes_count = 0, created_at = 10, updated_at = 10\<rparr>"

definition demo_store :: store where
  "demo_store = empty_store\<lparr>comments := [demo_comment]\<rparr>"

definition liked_store :: store where
  "liked_store = demo_store
     \<lparr>comments := [demo_comment\<lparr>likes_count := 1, updated_at := 20\<rparr>],
      comment_likes := [\<lparr>l_id = 1, comment_id = 1, user_identifier = ''u1'', l_created_at = 20\<rparr>]\<rparr>"

definition unliked_store :: store where
  "unliked_store = demo_store\<lparr>comments := [demo_comment\<lparr>updated_at := 30\<rparr>]\<rparr>"

text \<open>
  A comment whose counter holds the largest \<^verbatim>\<open>integer\<close>.
\<close>

definition full_store :: store where
  "full_store = demo_store\<lparr>comments := [demo_comment\<lparr>likes_count := 2147483647\<rparr>]\<rparr>"

text \<open>
  A reply, a reply to that reply, and a thread with two top-level comments and two replies.
\<close>

definition reply_comment :: comment where
  "reply_comment = \<lparr>c_id = 2, content = ''Agreed'', author_name = ''Bo'',
                   author_email = None, series_id = 1, episode_id = None, parent_id = Some 1,
                   likes_count = 0, created_at = 20, updated_at = 20\<rparr>"

definition nested_comment :: comment where
  "nested_comment = \<lparr>c_id = 3, content = ''Deeper'', author_name = ''Cy'',
                   author_email = None, series_id = 1, episode_id = None, parent_id = Some 2,
                   likes_count = 0, created_at = 30, updated_at = 30\<rparr>"

definition reply_store :: store where
  "reply_store = empty_store\<lparr>comments := [demo_comment, reply_comment]\<rparr>"

definition nested_store :: store where
  "nested_store = empty_store\<lparr>comments := [demo_comment, reply_comment, nested_comment]\<rparr>"

definition later_comment :: comment where
  "later_comment = \<lparr>c_id = 3, content = ''Second'', author_name = ''Cy'',
                   author_email = None, series_id = 1, episode_id = Some 1, parent_id = None,
                   likes_count = 0, created_at = 30, updated_at = 30\<rparr>"

definition second_reply :: comment where
  "second_reply = \<lparr>c_id = 4, content = ''Me too'', author_name = ''Di'',
                   author_email = None, series_id = 1, episode_id = None, parent_id = Some 1,
                   likes_count = 0, created_at = 40, updated_at = 40\<rparr>"

definition thread_store :: store where
  "thread_store =
     empty_store\<lparr>comments := [demo_comment, reply_comment, later_comment, second_reply]\<rparr>"

text \<open>
  The first store after its series has been marked completed at time 50.
\<close>

definition completed_store :: store where
  "completed_store =
     empty_store\<lparr>series := [\<lparr>s_id = 1, s_title = ''S'', s_views = 0, status = completed,
                               s_updated_at = 50\<rparr>]\<rparr>"

section \<open>Auxiliary facts about the builtins\<close>

lemma fold_max_ge: "a \<le> fold max xs (a::nat)"
  by (induction xs arbitrary: a) (auto intro: order_trans [OF max.cobounded2])

lemma fold_max_upper: "x \<in> set xs \<Longrightarrow> x \<le> fold max xs (a::nat)"
proof (induction xs arbitrary: a)
  case Nil
  then show ?case by simp
next
  case (Cons y ys)
  show ?case
  proof (cases "x = y")
    case True
    have "y \<le> max y a" by simp
    also have "\<dots> \<le> fold max ys (max y a)" by (rule fold_max_ge)
    finally show ?thesis using True by simp
  next
    case False
    with Cons.prems have "x \<in> set ys" by simp
    then show ?thesis using Cons.IH by simp
  qed
qed

lemma gen_random_uuid_fresh: "gen_random_uuid used \<notin> set used"
proof
  assume "gen_random_uuid used \<in> set used"
  then have "gen_random_uuid used \<le> fold max used 0" by (rule fold_max_upper)
  then show False by (simp add: gen_random_uuid_def)
qed

lemma dropWhile_id: "xs = [] \<or> \<not> P (hd xs) \<Longrightarrow> dropWhile P xs = xs"
  by (cases xs) auto

lemma length_trim_le: "length (trim s) \<le> length s"
  unfolding trim_def
  by (metis dual_order.trans length_dropWhile_le length_rev)

lemma last_dropWhile_rev:
  assumes "dropWhile P (rev ys) \<noteq> []"
  shows "last (dropWhile P (rev ys)) = hd ys"
proof -
  have "rev ys = takeWhile P (rev ys) @ dropWhile P (rev ys)" by simp
  then have "last (rev ys) = last (dropWhile P (rev ys))"
    using assms by (metis last_appendR)
  moreover have "ys \<noteq> []" using assms by auto
  ultimately show ?thesis by (simp add: last_rev)
qed

lemma trim_idem: "trim (trim s) = trim s"
proof -
  define P where "P = (\<lambda>c. c = CHR '' '')"
  define ys where "ys = dropWhile P s"
  define zs where "zs = dropWhile P (rev ys)"
  have t: "trim s = rev zs" by (simp add: trim_def P_def ys_def zs_def)
  have "dropWhile P (rev zs) = rev zs"
  proof (cases "zs = []")
    case True
    then show ?thesis by simp
  next
    case False
    then have ne: "dropWhile P (rev ys) \<noteq> []" by (simp add: zs_def)
    then have "last zs = hd ys" unfolding zs_def by (rule last_dropWhile_rev)
    moreover have "ys \<noteq> []" using ne by auto
    then have "\<not> P (hd ys)" unfolding ys_def by (metis hd_dropWhile)
    ultimately have "\<not> P (hd (rev zs))" using False by (simp add: hd_rev)
    then show ?thesis by (simp add: dropWhile_id)
  qed
  moreover have "dropWhile P zs = zs" by (simp add: zs_def)
  ultimately have "rev (dropWhile P (rev (dropWhile P (rev zs)))) = rev zs" by simp
  then show ?thesis unfolding t by (simp add: trim_def P_def)
qed

lemma trim_no_space: "s \<noteq> [] \<Longrightarrow> hd s \<noteq> CHR '' '' \<Longrightarrow> last s \<noteq> CHR '' '' \<Longrightarrow> trim s = s"
  by (simp add: trim_def dropWhile_id hd_rev)

lemma like_id_fresh: "\<not> list_ex (\<lambda>l. l_id l = gen_random_uuid (map l_id ls)) ls"
  using gen_random_uuid_fresh [of "map l_id ls"] by (force simp: list_ex_iff)

lemma comment_id_fresh: "\<not> list_ex (\<lambda>c. c_id c = gen_random_uuid (map c_id cs)) cs"
  using gen_random_uuid_fresh [of "map c_id cs"] by (force simp: list_ex_iff)

section \<open>Like toggle\<close>

subsection \<open>Auxiliary facts\<close>

lemma insert_comment_like_Inr:
  "insert_comment_like s now cid uid = Inr s1 \<longleftrightarrow>
     length (trim uid) \<noteq> 0 \<and> \<not> like_exists s cid uid \<and> list_ex (\<lambda>c. c_id c = cid) (comments s)
     \<and> s1 = s\<lparr>comment_likes := comment_likes s @
               [\<lparr>l_id = gen_random_uuid (map l_id (comment_likes s)), comment_id = cid,
                 user_identifier = uid, l_created_at = now\<rparr>]\<rparr>"
  by (auto simp: insert_comment_like_def like_exists_def like_id_fresh Let_def)

lemma trigger_after_set:
  "update_updated_at_column now (c\<lparr>likes_count := x, updated_at := now\<rparr>)
     = c\<lparr>likes_count := x, updated_at := now\<rparr>"
  by (simp add: update_updated_at_column_def)

lemma update_likes_count_Inr:
  "update_likes_count s now cid d = Inr (n, s') \<longleftrightarrow>
     \<not> list_ex (\<lambda>c. c_id c = cid \<and> \<not> int4_ok (likes_count c + d)) (comments s)
     \<and> s' = s\<lparr>comments := map (\<lambda>c. if c_id c = cid
                              then c\<lparr>likes_count := likes_count c + d, updated_at := now\<rparr>
                              else c) (comments s)\<rparr>
     \<and> n = stored_likes_count s' cid"
  by (auto simp: update_likes_count_def trigger_after_set Let_def stored_likes_count_def
        cong del: if_weak_cong)

lemma find_map_upd:
  "find (\<lambda>c. c_id c = cid) (map (\<lambda>c. if c_id c = cid then f c else c) cs)
     = map_option f (find (\<lambda>c. c_id c = cid) cs)" if "\<And>c. c_id (f c) = c_id c"
  using that by (induction cs) auto

lemma find_distinct:
  "distinct (map c_id cs) \<Longrightarrow> c \<in> set cs \<Longrightarrow> find (\<lambda>x. c_id x = c_id c) cs = Some c"
  by (induction cs) (auto simp: image_iff)

lemma toggle_like_branch:
  assumes "\<not> like_exists s cid uid" "length (trim uid) \<noteq> 0"
  shows "toggle_comment_like s now (Some cid) (Some uid) =
     (case insert_comment_like s now cid uid of
                 Inl e \<Rightarrow> Inl e
               | Inr s1 \<Rightarrow>
                   (case update_likes_count s1 now cid 1 of
                      Inl e \<Rightarrow> Inl e
                    | Inr (n, s2) \<Rightarrow>
                        Inr (\<lparr>action = ''liked'', new_likes_count = n, user_liked = True\<rparr>, s2)))"
  using assms by (simp add: toggle_comment_like_def null_or_blank_def)

lemma toggle_unlike_branch:
  assumes "like_exists s cid uid" "length (trim uid) \<noteq> 0"
  shows "toggle_comment_like s now (Some cid) (Some uid) =
     (case update_likes_count (s\<lparr>comment_likes :=
                          filter (\<lambda>l. \<not> (comment_id l = cid \<and> user_identifier l = uid))
                            (comment_likes s)\<rparr>) now cid (- 1) of
                    Inl e \<Rightarrow> Inl e
                  | Inr (n, s2) \<Rightarrow>
                      Inr (\<lparr>action = ''unliked'', new_likes_count = n, user_liked = False\<rparr>, s2))"
  using assms by (simp add: toggle_comment_like_def null_or_blank_def)

lemma c_id_bump [simp]: "c_id (bump cid d now x) = c_id x"
  by (simp add: bump_def)

lemma c_id_comp_bump [simp]: "c_id \<circ> bump cid d now = c_id"
  by (simp add: fun_eq_iff)

lemma bump_fields [simp]:
  "parent_id (bump cid d now x) = parent_id x" "series_id (bump cid d now x) = series_id x"
  by (simp_all add: bump_def)

lemma same_id_same_row:
  "distinct (map c_id cs) \<Longrightarrow> c \<in> set cs \<Longrightarrow> x \<in> set cs \<Longrightarrow> c_id x = c_id c \<Longrightarrow> x = c"
  by (meson distinct_map inj_onD)

lemma update_likes_count_distinct:
  assumes "distinct (map c_id (comments s))" "c \<in> set (comments s)" "int4_ok (likes_count c + d)"
  shows "update_likes_count s now (c_id c) d =
           Inr (Some (likes_count c + d), s\<lparr>comments := map (bump (c_id c) d now) (comments s)\<rparr>)"
proof -
  have no: "\<not> list_ex (\<lambda>x. c_id x = c_id c \<and> \<not> int4_ok (likes_count x + d)) (comments s)"
    using assms same_id_same_row [OF assms(1,2)] by (auto simp: list_ex_iff)
  have f: "find (\<lambda>x. c_id x = c_id c) (comments s) = Some c"
    using assms(1,2) by (rule find_distinct)
  have m: "(\<lambda>x. if c_id x = c_id c then x\<lparr>likes_count := likes_count x + d, updated_at := now\<rparr> else x)
             = bump (c_id c) d now"
    by (simp add: fun_eq_iff bump_def)
  have "find (\<lambda>x. c_id x = c_id c) (map (bump (c_id c) d now) (comments s))
          = Some (c\<lparr>likes_count := likes_count c + d, updated_at := now\<rparr>)"
    unfolding m [symmetric] by (subst find_map_upd) (simp_all add: f)
  then show ?thesis
    using no by (simp add: update_likes_count_Inr stored_likes_count_def m)
qed

lemma update_likes_count_store:
  "update_likes_count s now cid d = Inr (n, s') \<Longrightarrow>
     s' = s\<lparr>comments := map (bump cid d now) (comments s)\<rparr>"
proof -
  have m: "(\<lambda>x. if c_id x = cid then x\<lparr>likes_count := likes_count x + d, updated_at := now\<rparr> else x)
             = bump cid d now"
    by (simp add: fun_eq_iff bump_def)
  show "update_likes_count s now cid d = Inr (n, s') \<Longrightarrow> ?thesis"
    by (simp add: update_likes_count_Inr m)
qed

lemma toggle_comment_like_Inr:
  assumes "toggle_comment_like s now p_comment_id p_user_identifier = Inr (r, s')"
  shows "\<exists>cid uid. p_comment_id = Some cid \<and> p_user_identifier = Some uid \<and> length (trim uid) \<noteq> 0
     \<and> ((like_exists s cid uid \<and> action r = ''unliked'' \<and> \<not> user_liked r
          \<and> s' = s\<lparr>comment_likes := filter (\<lambda>l. \<not> (comment_id l = cid \<and> user_identifier l = uid))
                                        (comment_likes s),
                    comments := map (bump cid (- 1) now) (comments s)\<rparr>)
        \<or> (\<not> like_exists s cid uid \<and> action r = ''liked'' \<and> user_liked r
          \<and> s' = s\<lparr>comment_likes := comment_likes s @
                       [\<lparr>l_id = gen_random_uuid (map l_id (comment_likes s)), comment_id = cid,
                         user_identifier = uid, l_created_at = now\<rparr>],
                    comments := map (bump cid 1 now) (comments s)\<rparr>))"
proof -
  from assms obtain cid where cid: "p_comment_id = Some cid"
    by (cases p_comment_id) (simp_all add: toggle_comment_like_def)
  from assms cid have nb: "\<not> null_or_blank p_user_identifier"
    by (auto simp: toggle_comment_like_def split: if_splits)
  then obtain uid where uid: "p_user_identifier = Some uid" and u: "length (trim uid) \<noteq> 0"
    by (cases p_user_identifier) (simp_all add: null_or_blank_def)
  show ?thesis
  proof (cases "like_exists s cid uid")
    case True
    define sb where "sb = s\<lparr>comment_likes :=
      filter (\<lambda>l. \<not> (comment_id l = cid \<and> user_identifier l = uid)) (comment_likes s)\<rparr>"
    have "toggle_comment_like s now (Some cid) (Some uid) =
          (case update_likes_count sb now cid (- 1) of
             Inl e \<Rightarrow> Inl e
           | Inr (n, s2) \<Rightarrow>
               Inr (\<lparr>action = ''unliked'', new_likes_count = n, user_liked = False\<rparr>, s2))"
      unfolding sb_def using True u by (intro toggle_unlike_branch) simp_all
    with assms cid uid obtain n where
      up: "update_likes_count sb now cid (- 1) = Inr (n, s')"
      and r: "r = \<lparr>action = ''unliked'', new_likes_count = n, user_liked = False\<rparr>"
      by (auto split: sum.splits)
    from update_likes_count_store [OF up] have "s' = sb\<lparr>comments := map (bump cid (- 1) now) (comments sb)\<rparr>" .
    then have "s' = s\<lparr>comment_likes := filter (\<lambda>l. \<not> (comment_id l = cid \<and> user_identifier l = uid))
                                        (comment_likes s),
                    comments := map (bump cid (- 1) now) (comments s)\<rparr>"
      by (simp add: sb_def)
    with True r cid uid u show ?thesis by simp
  next
    case False
    have "toggle_comment_like s now (Some cid) (Some uid) =
       (case insert_comment_like s now cid uid of
                 Inl e \<Rightarrow> Inl e
               | Inr s1 \<Rightarrow>
                   (case update_likes_count s1 now cid 1 of
                      Inl e \<Rightarrow> Inl e
                    | Inr (n, s2) \<Rightarrow>
                        Inr (\<lparr>action = ''liked'', new_likes_count = n, user_liked = True\<rparr>, s2)))"
      using False u by (intro toggle_like_branch) simp_all
    with assms cid uid obtain sa n where
      ins: "insert_comment_like s now cid uid = Inr sa"
      and up: "update_likes_count sa now cid 1 = Inr (n, s')"
      and r: "r = \<lparr>action = ''liked'', new_likes_count = n, user_liked = True\<rparr>"
      by (auto split: sum.splits)
    from ins have sa: "sa = s\<lparr>comment_likes := comment_likes s @
               [\<lparr>l_id = gen_random_uuid (map l_id (comment_likes s)), comment_id = cid,
                 user_identifier = uid, l_created_at = now\<rparr>]\<rparr>"
      by (simp add: insert_comment_like_Inr)
    from update_likes_count_store [OF up]
    have "s' = s\<lparr>comment_likes := comment_likes s @
                       [\<lparr>l_id = gen_random_uuid (map l_id (comment_likes s)), comment_id = cid,
                         user_identifier = uid, l_created_at = now\<rparr>],
                    comments := map (bump cid 1 now) (comments s)\<rparr>"
      by (simp add: sa)
    with False r cid uid u show ?thesis by simp
  qed
qed

lemma toggle_comments:
  assumes "toggle_comment_like s now p1 p2 = Inr (r, s')"
  shows "\<exists>cid d. comments s' = map (bump cid d now) (comments s)"
proof -
  from toggle_comment_like_Inr [OF assms] obtain cid uid where
    "(like_exists s cid uid \<and> action r = ''unliked'' \<and> \<not> user_liked r
          \<and> s' = s\<lparr>comment_likes := filter (\<lambda>l. \<not> (comment_id l = cid \<and> user_identifier l = uid))
                                        (comment_likes s),
                    comments := map (bump cid (- 1) now) (comments s)\<rparr>)
        \<or> (\<not> like_exists s cid uid \<and> action r = ''liked'' \<and> user_liked r
          \<and> s' = s\<lparr>comment_likes := comment_likes s @
                       [\<lparr>l_id = gen_random_uuid (map l_id (comment_likes s)), comment_id = cid,
                         user_identifier = uid, l_created_at = now\<rparr>],
                    comments := map (bump cid 1 now) (comments s)\<rparr>)"
    by blast
  then have "comments s' = map (bump cid (- 1) now) (comments s)
             \<or> comments s' = map (bump cid 1 now) (comments s)"
    by auto
  then show ?thesis by blast
qed

lemma toggle_preserves_likes_unique:
  assumes "likes_unique s" "toggle_comment_like s now p1 p2 = Inr (r, s')"
  shows "likes_unique s'"
proof -
  from toggle_comment_like_Inr [OF assms(2)] obtain cid uid where
    d: "(like_exists s cid uid
          \<and> s' = s\<lparr>comment_likes := filter (\<lambda>l. \<not> (comment_id l = cid \<and> user_identifier l = uid))
                                        (comment_likes s),
                    comments := map (bump cid (- 1) now) (comments s)\<rparr>)
        \<or> (\<not> like_exists s cid uid
          \<and> s' = s\<lparr>comment_likes := comment_likes s @
                       [\<lparr>l_id = gen_random_uuid (map l_id (comment_likes s)), comment_id = cid,
                         user_identifier = uid, l_created_at = now\<rparr>],
                    comments := map (bump cid 1 now) (comments s)\<rparr>)"
    by blast
  then show ?thesis
  proof
    assume a: "like_exists s cid uid
          \<and> s' = s\<lparr>comment_likes := filter (\<lambda>l. \<not> (comment_id l = cid \<and> user_identifier l = uid))
                                        (comment_likes s),
                    comments := map (bump cid (- 1) now) (comments s)\<rparr>"
    then show ?thesis using assms(1) by (simp add: likes_unique_def distinct_map_filter)
  next
    assume a: "\<not> like_exists s cid uid
          \<and> s' = s\<lparr>comment_likes := comment_likes s @
                       [\<lparr>l_id = gen_random_uuid (map l_id (comment_likes s)), comment_id = cid,
                         user_identifier = uid, l_created_at = now\<rparr>],
                    comments := map (bump cid 1 now) (comments s)\<rparr>"
    then show ?thesis using assms(1)
      by (auto simp: likes_unique_def like_exists_def list_ex_iff)
  qed
qed

lemma filter_key_length:
  "distinct (map k ls) \<Longrightarrow> list_ex (\<lambda>l. k l = a) ls \<Longrightarrow>
     Suc (length (filter (\<lambda>l. k l \<noteq> a) ls)) = length ls"
proof (induction ls)
  case Nil
  then show ?case by simp
next
  case (Cons x xs)
  show ?case
  proof (cases "k x = a")
    case True
    with Cons.prems(1) have "\<forall>l \<in> set xs. k l \<noteq> a" by (auto simp: image_iff)
    then have "filter (\<lambda>l. k l \<noteq> a) xs = xs" by (simp add: filter_id_conv)
    with True show ?thesis by simp
  next
    case False
    with Cons show ?thesis by simp
  qed
qed

lemmas toggle_eval =
  toggle_comment_like_def null_or_blank_def trim_def like_exists_def insert_comment_like_def
  update_likes_count_def gen_random_uuid_def int4_ok_def update_updated_at_column_def Let_def

lemma demo_like:
  "toggle_comment_like demo_store 20 (Some 1) (Some ''u1'')
     = Inr (\<lparr>action = ''liked'', new_likes_count = Some 1, user_liked = True\<rparr>, liked_store)"
  by (simp add: toggle_eval demo_store_def empty_store_def liked_store_def demo_comment_def)

lemma demo_unlike:
  "toggle_comment_like liked_store 30 (Some 1) (Some ''u1'')
     = Inr (\<lparr>action = ''unliked'', new_likes_count = Some 0, user_liked = False\<rparr>, unliked_store)"
  by (simp add: toggle_eval demo_store_def empty_store_def liked_store_def unliked_store_def demo_comment_def)

subsection \<open>Rejected parameters\<close>

text \<open>
  C10.  Whatever the store, \<open>toggle_comment_like\<close> raises \<^verbatim>\<open>Invalid parameters\<close> when
  the comment id is null, or the user identifier is null, or the user identifier is blank
  after trimming.  The call is rolled back, so the store stays as it was.
\<close>

theorem toggle_comment_like_invalid_parameters:
  "p_comment_id = None \<or> p_user_identifier = None
     \<or> (\<exists>u. p_user_identifier = Some u \<and> length (trim u) = 0)
   \<Longrightarrow> toggle_comment_like s now p_comment_id p_user_identifier = Inl Invalid_parameters"
  by (auto simp: toggle_comment_like_def null_or_blank_def split: option.splits)

theorem toggle_comment_like_invalid_parameters_witness:
  "toggle_comment_like demo_store 20 (Some 1) (Some ''  '') = Inl Invalid_parameters
   \<and> toggle_comment_like demo_store 20 None (Some ''u1'') = Inl Invalid_parameters
   \<and> toggle_comment_like demo_store 20 (Some 1) None = Inl Invalid_parameters"
proof -
  have "length (trim ''  '') = 0" by (simp add: trim_def)
  then show ?thesis
    using toggle_comment_like_invalid_parameters [of "Some 1" "Some ''  ''" demo_store 20]
      toggle_comment_like_invalid_parameters [of None "Some ''u1''" demo_store 20]
      toggle_comment_like_invalid_parameters [of "Some 1" None demo_store 20]
    by simp
qed

subsection \<open>Toggling once and twice\<close>

text \<open>
  C1 as the claim states it fails where the counter cannot be incremented: the column is
  an \<^verbatim>\<open>integer\<close>, and on a comment whose counter is 2147483647 the first toggle raises
  \<^verbatim>\<open>integer out of range\<close> instead of returning \<^verbatim>\<open>liked\<close>.
\<close>

theorem toggle_comment_like_overflow_counterexample:
  "\<not> like_exists full_store 1 ''u1'' \<and> length (trim ''u1'') > 0
   \<and> find (\<lambda>c. c_id c = 1) (comments full_store) = Some (demo_comment\<lparr>likes_count := 2147483647\<rparr>)
   \<and> toggle_comment_like full_store 20 (Some 1) (Some ''u1'') = Inl numeric_value_out_of_range"
  by (simp add: toggle_eval demo_store_def empty_store_def full_store_def demo_comment_def)

text \<open>
  C1, amended.  In a store whose comment ids are distinct, for a comment \<open>c\<close> whose counter
  is in the \<^verbatim>\<open>integer\<close> range and below 2147483647, and a user identifier that is not
  blank and has no like row on \<open>c\<close>: one toggle returns \<^verbatim>\<open>liked\<close>, \<open>user_liked\<close>
  true and the prior counter plus one, which is also the stored counter; a second toggle
  returns \<^verbatim>\<open>unliked\<close>, \<open>user_liked\<close> false and the original counter, which is stored
  again, and leaves no like row for the pair.
\<close>

theorem toggle_comment_like_twice:
  assumes pk: "distinct (map c_id (comments s))"
    and c: "c \<in> set (comments s)"
    and rng: "int4_ok (likes_count c)" "likes_count c < 2147483647"
    and u: "length (trim uid) > 0"
    and nl: "\<not> like_exists s (c_id c) uid"
  shows "\<exists>r1 s1 r2 s2.
     toggle_comment_like s now1 (Some (c_id c)) (Some uid) = Inr (r1, s1)
     \<and> action r1 = ''liked'' \<and> user_liked r1 \<and> new_likes_count r1 = Some (likes_count c + 1)
     \<and> stored_likes_count s1 (c_id c) = Some (likes_count c + 1)
     \<and> toggle_comment_like s1 now2 (Some (c_id c)) (Some uid) = Inr (r2, s2)
     \<and> action r2 = ''unliked'' \<and> \<not> user_liked r2 \<and> new_likes_count r2 = Some (likes_count c)
     \<and> stored_likes_count s2 (c_id c) = Some (likes_count c)
     \<and> \<not> like_exists s2 (c_id c) uid"
proof -
  define cid where "cid = c_id c"
  define new where "new = \<lparr>l_id = gen_random_uuid (map l_id (comment_likes s)), comment_id = cid,
                 user_identifier = uid, l_created_at = now1\<rparr>"
  define sa where "sa = s\<lparr>comment_likes := comment_likes s @ [new]\<rparr>"
  define c1 where "c1 = c\<lparr>likes_count := likes_count c + 1, updated_at := now1\<rparr>"
  define s1 where "s1 = sa\<lparr>comments := map (bump cid 1 now1) (comments sa)\<rparr>"
  define sb where "sb = s1\<lparr>comment_likes :=
      filter (\<lambda>l. \<not> (comment_id l = cid \<and> user_identifier l = uid)) (comment_likes s1)\<rparr>"
  define s2 where "s2 = sb\<lparr>comments := map (bump cid (- 1) now2) (comments sb)\<rparr>"
  define r1 where "r1 = \<lparr>action = ''liked'', new_likes_count = Some (likes_count c + 1), user_liked = True\<rparr>"
  define r2 where "r2 = \<lparr>action = ''unliked'', new_likes_count = Some (likes_count c), user_liked = False\<rparr>"
  have ex: "list_ex (\<lambda>x. c_id x = cid) (comments s)"
    using c by (auto simp: list_ex_iff cid_def)
  have ins: "insert_comment_like s now1 cid uid = Inr sa"
    using u nl ex by (simp add: insert_comment_like_Inr sa_def new_def cid_def)
  have ok1: "int4_ok (likes_count c + 1)"
    using rng by (simp add: int4_ok_def)
  have up1: "update_likes_count sa now1 cid 1 = Inr (Some (likes_count c + 1), s1)"
    unfolding cid_def s1_def
    by (rule update_likes_count_distinct) (use pk c ok1 in \<open>simp_all add: sa_def\<close>)
  have t1: "toggle_comment_like s now1 (Some cid) (Some uid) = Inr (r1, s1)"
    using u nl by (simp add: toggle_like_branch cid_def [symmetric] ins up1 r1_def)
  have c1_in: "c1 \<in> set (comments s1)"
    using c by (force simp: s1_def sa_def c1_def bump_def cid_def)
  have pk1: "distinct (map c_id (comments s1))"
    using pk by (simp add: s1_def sa_def)
  have st1: "stored_likes_count s1 cid = Some (likes_count c + 1)"
    using find_distinct [OF pk1 c1_in] by (simp add: stored_likes_count_def c1_def cid_def)
  have le1: "like_exists s1 cid uid"
    by (simp add: like_exists_def s1_def sa_def new_def)
  have likes_b: "comment_likes sb = comment_likes s"
    using nl by (auto simp: sb_def s1_def sa_def new_def like_exists_def list_ex_iff cid_def
        filter_id_conv)
  have c1_in_b: "c1 \<in> set (comments sb)" and pkb: "distinct (map c_id (comments sb))"
    using c1_in pk1 by (simp_all add: sb_def)
  have ok2: "int4_ok (likes_count c1 + - 1)"
    using rng by (simp add: c1_def)
  have "update_likes_count sb now2 (c_id c1) (- 1)
          = Inr (Some (likes_count c1 + - 1), sb\<lparr>comments := map (bump (c_id c1) (- 1) now2) (comments sb)\<rparr>)"
    using pkb c1_in_b ok2 by (rule update_likes_count_distinct)
  then have up2: "update_likes_count sb now2 cid (- 1) = Inr (Some (likes_count c), s2)"
    by (simp add: c1_def cid_def s2_def)
  have "toggle_comment_like s1 now2 (Some cid) (Some uid) =
          (case update_likes_count sb now2 cid (- 1) of
             Inl e \<Rightarrow> Inl e
           | Inr (n, s2) \<Rightarrow>
               Inr (\<lparr>action = ''unliked'', new_likes_count = n, user_liked = False\<rparr>, s2))"
    unfolding sb_def using le1 u by (intro toggle_unlike_branch) simp_all
  then have t2: "toggle_comment_like s1 now2 (Some cid) (Some uid) = Inr (r2, s2)"
    by (simp add: up2 r2_def)
  define c2 where "c2 = c1\<lparr>likes_count := likes_count c1 + - 1, updated_at := now2\<rparr>"
  have c2_in: "c2 \<in> set (comments s2)"
    using c1_in_b by (force simp: s2_def c2_def bump_def cid_def c1_def)
  have pk2: "distinct (map c_id (comments s2))"
    using pkb by (simp add: s2_def)
  have st2: "stored_likes_count s2 cid = Some (likes_count c)"
    using find_distinct [OF pk2 c2_in] by (simp add: stored_likes_count_def c2_def c1_def cid_def)
  have nl2: "\<not> like_exists s2 cid uid"
    using nl likes_b by (simp add: like_exists_def s2_def cid_def)
  show ?thesis
    using t1 st1 t2 st2 nl2 unfolding cid_def
    by (intro exI [of _ r1] exI [of _ s1] exI [of _ r2] exI [of _ s2]) (simp add: r1_def r2_def)
qed

theorem toggle_comment_like_twice_witness:
  "\<exists>r1 s1 r2 s2.
     toggle_comment_like demo_store 20 (Some 1) (Some ''u1'') = Inr (r1, s1)
     \<and> action r1 = ''liked'' \<and> user_liked r1 \<and> new_likes_count r1 = Some 1
     \<and> stored_likes_count s1 1 = Some 1
     \<and> toggle_comment_like s1 30 (Some 1) (Some ''u1'') = Inr (r2, s2)
     \<and> action r2 = ''unliked'' \<and> \<not> user_liked r2 \<and> new_likes_count r2 = Some 0
     \<and> stored_likes_count s2 1 = Some 0
     \<and> \<not> like_exists s2 1 ''u1''"
  using toggle_comment_like_twice [of demo_store demo_comment "''u1''" 20 30]
  by (simp add: demo_store_def empty_store_def demo_comment_def int4_ok_def like_exists_def trim_def)

subsection \<open>What a call leaves alone\<close>

text \<open>
  C9.  A \<open>toggle_comment_like\<close> call that returns leaves the series and the episodes as
  they were, keeps every comment in its place, leaves a comment with another id as it was,
  and changes of the target comment only \<^verbatim>\<open>likes_count\<close> (by one, up on the like
  branch and down on the unlike branch) and \<^verbatim>\<open>updated_at\<close> (set to the time of the
  call on both branches).  On the like branch the like rows are the old ones followed by
  one row for the pair; on the unlike branch they are the old ones without the rows of the
  pair, which is one row less when the pairs are unique.
\<close>

theorem toggle_comment_like_frame:
  assumes "toggle_comment_like s now p_comment_id p_user_identifier = Inr (r, s')"
  shows "\<exists>cid uid. p_comment_id = Some cid \<and> p_user_identifier = Some uid
     \<and> series s' = series s \<and> episodes s' = episodes s
     \<and> length (comments s') = length (comments s)
     \<and> (\<forall>i < length (comments s).
          (c_id (comments s ! i) \<noteq> cid \<longrightarrow> comments s' ! i = comments s ! i)
          \<and> (comments s' ! i)\<lparr>likes_count := likes_count (comments s ! i),
                               updated_at := updated_at (comments s ! i)\<rparr> = comments s ! i
          \<and> (c_id (comments s ! i) = cid \<longrightarrow>
                updated_at (comments s' ! i) = now
                \<and> likes_count (comments s' ! i)
                    = likes_count (comments s ! i) + (if user_liked r then 1 else - 1)))
     \<and> (if user_liked r
        then \<not> like_exists s cid uid
             \<and> (\<exists>l. comment_likes s' = comment_likes s @ [l]
                    \<and> comment_id l = cid \<and> user_identifier l = uid)
        else like_exists s cid uid
             \<and> comment_likes s'
                 = filter (\<lambda>l. \<not> (comment_id l = cid \<and> user_identifier l = uid)) (comment_likes s)
             \<and> (likes_unique s \<longrightarrow> Suc (length (comment_likes s')) = length (comment_likes s)))"
proof -
  from toggle_comment_like_Inr [OF assms] obtain cid uid where
    p: "p_comment_id = Some cid" "p_user_identifier = Some uid"
    and d: "(like_exists s cid uid \<and> action r = ''unliked'' \<and> \<not> user_liked r
          \<and> s' = s\<lparr>comment_likes := filter (\<lambda>l. \<not> (comment_id l = cid \<and> user_identifier l = uid))
                                        (comment_likes s),
                    comments := map (bump cid (- 1) now) (comments s)\<rparr>)
        \<or> (\<not> like_exists s cid uid \<and> action r = ''liked'' \<and> user_liked r
          \<and> s' = s\<lparr>comment_likes := comment_likes s @
                       [\<lparr>l_id = gen_random_uuid (map l_id (comment_likes s)), comment_id = cid,
                         user_identifier = uid, l_created_at = now\<rparr>],
                    comments := map (bump cid 1 now) (comments s)\<rparr>)"
    by blast
  define d' :: int where "d' = (if user_liked r then 1 else - 1)"
  from d have cs: "comments s' = map (bump cid d' now) (comments s)"
    and se: "series s' = series s" "episodes s' = episodes s"
    by (auto simp: d'_def)
  have rows: "\<forall>i < length (comments s).
          (c_id (comments s ! i) \<noteq> cid \<longrightarrow> comments s' ! i = comments s ! i)
          \<and> (comments s' ! i)\<lparr>likes_count := likes_count (comments s ! i),
                               updated_at := updated_at (comments s ! i)\<rparr> = comments s ! i
          \<and> (c_id (comments s ! i) = cid \<longrightarrow>
                updated_at (comments s' ! i) = now
                \<and> likes_count (comments s' ! i) = likes_count (comments s ! i) + d')"
    by (simp add: cs bump_def)
  have likes: "if user_liked r
        then \<not> like_exists s cid uid
             \<and> (\<exists>l. comment_likes s' = comment_likes s @ [l]
                    \<and> comment_id l = cid \<and> user_identifier l = uid)
        else like_exists s cid uid
             \<and> comment_likes s'
                 = filter (\<lambda>l. \<not> (comment_id l = cid \<and> user_identifier l = uid)) (comment_likes s)
             \<and> (likes_unique s \<longrightarrow> Suc (length (comment_likes s')) = length (comment_likes s))"
  proof (cases "user_liked r")
    case True
    with d show ?thesis by auto
  next
    case False
    with d have le: "like_exists s cid uid"
      and eq: "comment_likes s'
                 = filter (\<lambda>l. \<not> (comment_id l = cid \<and> user_identifier l = uid)) (comment_likes s)"
      by auto
    have "Suc (length (comment_likes s')) = length (comment_likes s)" if "likes_unique s"
    proof -
      have "Suc (length (filter (\<lambda>l. (comment_id l, user_identifier l) \<noteq> (cid, uid)) (comment_likes s)))
              = length (comment_likes s)"
        using that le by (intro filter_key_length) (simp_all add: likes_unique_def like_exists_def)
      then show ?thesis by (simp add: eq)
    qed
    with False le eq show ?thesis by simp
  qed
  show ?thesis
    using p se cs rows likes unfolding d'_def
    by (intro exI [of _ cid] exI [of _ uid]) simp
qed

theorem toggle_comment_like_frame_witness:
  "toggle_comment_like demo_store 20 (Some 1) (Some ''u1'')
     = Inr (\<lparr>action = ''liked'', new_likes_count = Some 1, user_liked = True\<rparr>, liked_store)
   \<and> series liked_store = series demo_store \<and> episodes liked_store = episodes demo_store
   \<and> length (comments liked_store) = length (comments demo_store)
   \<and> updated_at (comments liked_store ! 0) = 20
   \<and> likes_count (comments liked_store ! 0) = likes_count (comments demo_store ! 0) + 1
   \<and> length (comment_likes liked_store) = Suc (length (comment_likes demo_store))"
  using toggle_comment_like_frame [OF demo_like] demo_like
  by (auto simp: demo_store_def empty_store_def demo_comment_def)

section \<open>Comment creation\<close>

subsection \<open>Auxiliary facts\<close>

lemma create_comment_invalid:
  assumes "null_or_blank p_content \<or> null_or_blank p_author_name \<or> p_series_id = None
             \<or> \<not> references_ok s (the p_series_id) p_episode_id p_parent_id"
  shows "\<exists>e. create_comment s now p_content p_author_name p_author_email p_series_id
                p_episode_id p_parent_id = Inl e"
  using assms
  by (auto simp: create_comment_def references_ok_def split: option.splits)

lemma insert_comment_references_ok:
  assumes "references_ok s sid p_episode_id p_parent_id"
  shows "insert_comment s now c n e sid p_episode_id p_parent_id =
     (let new = \<lparr>c_id = gen_random_uuid (map c_id (comments s)),
                  content = c, author_name = n, author_email = e, series_id = sid,
                  episode_id = p_episode_id, parent_id = p_parent_id,
                  likes_count = 0, created_at = now, updated_at = now\<rparr>
      in if comment_checks new then Inr (new, s\<lparr>comments := comments s @ [new]\<rparr>)
         else Inl check_violation)"
proof -
  have ep: "\<not> (case p_episode_id of None \<Rightarrow> False
                  | Some e \<Rightarrow> \<not> list_ex (\<lambda>r. e_id r = e) (episodes s))"
    using assms by (auto simp: references_ok_def list_ex_iff split: option.splits)
  have pa: "\<not> (case p_parent_id of None \<Rightarrow> False
                  | Some p \<Rightarrow> \<not> list_ex (\<lambda>c. c_id c = p) (comments s))"
    using assms by (auto simp: references_ok_def list_ex_iff split: option.splits)
  have se: "list_ex (\<lambda>r. s_id r = sid) (series s)"
    using assms by (simp add: references_ok_def)
  show ?thesis
    unfolding insert_comment_def Let_def
    using ep pa se by (simp add: comment_id_fresh)
qed

lemma create_comment_valid:
  assumes "\<not> null_or_blank p_content" "\<not> null_or_blank p_author_name"
    and "references_ok s sid p_episode_id p_parent_id"
  shows "create_comment s now p_content p_author_name p_author_email (Some sid) p_episode_id p_parent_id
     = (let new = new_comment s now p_content p_author_name p_author_email sid p_episode_id p_parent_id
        in if comment_checks new then Inr (new, s\<lparr>comments := comments s @ [new]\<rparr>)
           else Inl check_violation)"
proof -
  have "create_comment s now p_content p_author_name p_author_email (Some sid) p_episode_id p_parent_id
     = insert_comment s now (trim (the p_content)) (trim (the p_author_name))
                 (if \<not> null_or_blank p_author_email then Some (trim (the p_author_email)) else None)
                 sid p_episode_id p_parent_id"
    using assms by (auto simp: create_comment_def references_ok_def split: option.splits)
  then show ?thesis
    by (simp add: insert_comment_references_ok [OF assms(3)] new_comment_def Let_def)
qed

lemma comment_checks_new:
  assumes "\<not> null_or_blank p_content" "\<not> null_or_blank p_author_name"
  shows "comment_checks (new_comment s now p_content p_author_name p_author_email sid p_episode_id p_parent_id)
     \<longleftrightarrow> length (trim (the p_content)) \<le> 2000 \<and> length (trim (the p_author_name)) \<le> 100
         \<and> (null_or_blank p_author_email \<or> email_matches (trim (the p_author_email)))"
  using assms
  by (auto simp: comment_checks_def new_comment_def trim_idem null_or_blank_def split: option.splits)

lemma references_ok_iff:
  "references_ok s sid p_episode_id p_parent_id \<longleftrightarrow>
     \<not> ((\<forall>r \<in> set (series s). s_id r \<noteq> sid)
        \<or> (\<exists>e. p_episode_id = Some e
               \<and> (\<forall>r \<in> set (episodes s). \<not> (e_id r = e \<and> e_series_id r = sid)))
        \<or> (\<exists>p. p_parent_id = Some p
               \<and> (\<forall>c \<in> set (comments s). \<not> (c_id c = p \<and> series_id c = sid))))"
  by (auto simp: references_ok_def list_ex_iff split: option.splits)

lemma create_comment_Inr:
  assumes "create_comment s now p_content p_author_name p_author_email p_series_id
             p_episode_id p_parent_id = Inr (row, s')"
  shows "\<exists>sid. p_series_id = Some sid \<and> references_ok s sid p_episode_id p_parent_id
     \<and> row = new_comment s now p_content p_author_name p_author_email sid p_episode_id p_parent_id
     \<and> s' = s\<lparr>comments := comments s @ [row]\<rparr>"
proof -
  have v: "\<not> (null_or_blank p_content \<or> null_or_blank p_author_name \<or> p_series_id = None
             \<or> \<not> references_ok s (the p_series_id) p_episode_id p_parent_id)"
  proof
    assume "null_or_blank p_content \<or> null_or_blank p_author_name \<or> p_series_id = None
             \<or> \<not> references_ok s (the p_series_id) p_episode_id p_parent_id"
    then have "\<exists>e. create_comment s now p_content p_author_name p_author_email p_series_id
                p_episode_id p_parent_id = Inl e"
      by (rule create_comment_invalid)
    with assms show False by simp
  qed
  then obtain sid where sid: "p_series_id = Some sid" by auto
  from v sid have nb: "\<not> null_or_blank p_content" "\<not> null_or_blank p_author_name"
    and ro: "references_ok s sid p_episode_id p_parent_id" by auto
  from assms show ?thesis
    unfolding sid create_comment_valid [OF nb ro] Let_def
    using ro by (auto split: if_splits)
qed

lemmas create_eval =
  create_comment_def insert_comment_def comment_checks_def null_or_blank_def trim_def
  gen_random_uuid_def Let_def

lemma create_demo:
  "create_comment empty_store 10 (Some ''Great episode!'') (Some ''Alex'') None (Some 1) None None
     = Inr (demo_comment, demo_store)"
  by (simp add: create_comment_def insert_comment_def comment_checks_def toggle_eval
      empty_store_def demo_store_def demo_comment_def)

lemma create_reply:
  "create_comment demo_store 20 (Some ''Agreed'') (Some ''Bo'') None (Some 1) None (Some 1)
     = Inr (reply_comment, reply_store)"
  by (simp add: create_eval empty_store_def demo_store_def demo_comment_def reply_store_def
      reply_comment_def)

lemma create_nested:
  "create_comment reply_store 30 (Some ''Deeper'') (Some ''Cy'') None (Some 1) None (Some 2)
     = Inr (nested_comment, nested_store)"
  by (simp add: create_eval empty_store_def demo_comment_def reply_store_def
      reply_comment_def nested_store_def nested_comment_def)

subsection \<open>When a call fails\<close>

text \<open>
  C2 as the claim states it fails on the column checks of the table: a call whose
  content, author name and series pass every test the claim lists, but whose trimmed
  content has 2001 characters, raises a check violation.
\<close>

theorem create_comment_oversized_counterexample:
  "\<not> null_or_blank (Some (replicate 2001 CHR ''a'')) \<and> \<not> null_or_blank (Some ''Alex'')
   \<and> list_ex (\<lambda>r. s_id r = 1) (series empty_store)
   \<and> create_comment empty_store 10 (Some (replicate 2001 CHR ''a'')) (Some ''Alex'') None (Some 1)
        None None = Inl check_violation"
proof -
  have t: "trim (replicate 2001 CHR ''a'') = replicate 2001 CHR ''a''"
    by (rule trim_no_space) simp_all
  have a: "trim ''Alex'' = ''Alex''"
    by (simp add: trim_def)
  show ?thesis
    by (simp add: create_comment_def insert_comment_def comment_checks_def null_or_blank_def
        t a empty_store_def Let_def)
qed

text \<open>
  C2, amended.  \<open>create_comment\<close> raises, inserting nothing, exactly when the content or
  the author name is null or blank after trimming, or the series id is null or is the id
  of no series, or a non-null episode id is the id of no episode of that series, or a
  non-null parent id is the id of no comment of that series, or the trimmed content has
  more than 2000 characters, or the trimmed author name has more than 100, or the email is
  not blank and, trimmed, does not match the pattern of the column check.
\<close>

theorem create_comment_fails_iff:
  "(\<exists>e. create_comment s now p_content p_author_name p_author_email p_series_id
           p_episode_id p_parent_id = Inl e)
   \<longleftrightarrow> (null_or_blank p_content \<or> null_or_blank p_author_name
        \<or> p_series_id = None
        \<or> (\<exists>sid. p_series_id = Some sid
              \<and> ((\<forall>r \<in> set (series s). s_id r \<noteq> sid)
                 \<or> (\<exists>e. p_episode_id = Some e
                        \<and> (\<forall>r \<in> set (episodes s). \<not> (e_id r = e \<and> e_series_id r = sid)))
                 \<or> (\<exists>p. p_parent_id = Some p
                        \<and> (\<forall>c \<in> set (comments s). \<not> (c_id c = p \<and> series_id c = sid)))))
        \<or> (\<exists>t. p_content = Some t \<and> 2000 < length (trim t))
        \<or> (\<exists>t. p_author_name = Some t \<and> 100 < length (trim t))
        \<or> (\<exists>t. p_author_email = Some t \<and> length (trim t) \<noteq> 0 \<and> \<not> email_matches (trim t)))"
  (is "?fails \<longleftrightarrow> ?cond")
proof (cases "null_or_blank p_content \<or> null_or_blank p_author_name \<or> p_series_id = None
             \<or> \<not> references_ok s (the p_series_id) p_episode_id p_parent_id")
  case True
  then have "?fails" by (rule create_comment_invalid)
  moreover from True have "?cond"
    by (cases p_series_id) (auto simp: references_ok_iff)
  ultimately show ?thesis by simp
next
  case False
  then obtain sid where sid: "p_series_id = Some sid" by auto
  from False sid have nb: "\<not> null_or_blank p_content" "\<not> null_or_blank p_author_name"
    and ro: "references_ok s sid p_episode_id p_parent_id" by auto
  let ?new = "new_comment s now p_content p_author_name p_author_email sid p_episode_id p_parent_id"
  have "?fails \<longleftrightarrow> \<not> comment_checks ?new"
    by (simp add: sid create_comment_valid [OF nb ro] Let_def)
  also have "\<dots> \<longleftrightarrow> \<not> (length (trim (the p_content)) \<le> 2000 \<and> length (trim (the p_author_name)) \<le> 100
         \<and> (null_or_blank p_author_email \<or> email_matches (trim (the p_author_email))))"
    by (simp add: comment_checks_new [OF nb])
  also have "\<dots> \<longleftrightarrow> ((\<exists>t. p_content = Some t \<and> 2000 < length (trim t))
        \<or> (\<exists>t. p_author_name = Some t \<and> 100 < length (trim t))
        \<or> (\<exists>t. p_author_email = Some t \<and> length (trim t) \<noteq> 0 \<and> \<not> email_matches (trim t)))"
    using nb by (cases p_content; cases p_author_name; cases p_author_email)
      (auto simp: null_or_blank_def)
  also have "\<dots> \<longleftrightarrow> ?cond"
    using nb ro by (auto simp: sid references_ok_iff)
  finally show ?thesis .
qed

theorem create_comment_fails_iff_witness:
  "(\<exists>e. create_comment empty_store 10 (Some ''   '') (Some ''Alex'') None (Some 1) None None = Inl e)
   \<and> (\<exists>e. create_comment empty_store 10 (Some ''Hi'') (Some ''Alex'') None (Some 2) None None = Inl e)
   \<and> (\<exists>e. create_comment demo_store 10 (Some ''Hi'') (Some ''Alex'') None (Some 1) None (Some 7) = Inl e)
   \<and> \<not> (\<exists>e. create_comment demo_store 10 (Some ''Hi'') (Some ''Alex'') (Some ''a@b.co'') (Some 1)
              (Some 1) (Some 1) = Inl e)"
  using create_comment_fails_iff [of empty_store 10 "Some ''   ''" "Some ''Alex''" None "Some 1" None None]
    create_comment_fails_iff [of empty_store 10 "Some ''Hi''" "Some ''Alex''" None "Some 2" None None]
    create_comment_fails_iff [of demo_store 10 "Some ''Hi''" "Some ''Alex''" None "Some 1" None "Some 7"]
    create_comment_fails_iff [of demo_store 10 "Some ''Hi''" "Some ''Alex''" "Some ''a@b.co''" "Some 1"
       "Some 1" "Some 1"]
  by (simp add: null_or_blank_def trim_def empty_store_def demo_store_def demo_comment_def
      email_matches_def email_local_char_def email_domain_char_def alnum_char_def alpha_char_def)

subsection \<open>What a successful call stores\<close>

text \<open>
  C3 as the claim states it fails on the column check of the email: with content, author
  name and series as the claim asks, and the email \<^verbatim>\<open>not-an-email\<close>, the call raises a
  check violation.
\<close>

theorem create_comment_email_counterexample:
  "\<not> null_or_blank (Some ''Great episode!'') \<and> \<not> null_or_blank (Some ''Alex'')
   \<and> list_ex (\<lambda>r. s_id r = 1) (series empty_store)
   \<and> create_comment empty_store 10 (Some ''Great episode!'') (Some ''Alex'')
        (Some ''not-an-email'') (Some 1) None None = Inl check_violation"
  by (simp add: create_comment_def insert_comment_def comment_checks_def null_or_blank_def
      trim_def empty_store_def Let_def email_matches_def)

text \<open>
  C3, amended.  When the trimmed content has between 1 and 2000 characters, the trimmed
  author name between 1 and 100, the email is null, blank or, trimmed, matches the
  pattern, the series exists, and the episode and the parent, where given, exist under
  that series, \<open>create_comment\<close> returns the row it appends to the comments: content and
  author name trimmed, the email null when it was null or blank and trimmed otherwise,
  \<^verbatim>\<open>likes_count\<close> 0, both timestamps the time of the call, and an id no comment had.
\<close>

theorem create_comment_succeeds:
  assumes "0 < length (trim c)" "length (trim c) \<le> 2000"
    and "0 < length (trim n)" "length (trim n) \<le> 100"
    and "null_or_blank p_author_email \<or> email_matches (trim (the p_author_email))"
    and "\<exists>r \<in> set (series s). s_id r = sid"
    and "p_episode_id = None
         \<or> (\<exists>r \<in> set (episodes s). Some (e_id r) = p_episode_id \<and> e_series_id r = sid)"
    and "p_parent_id = None
         \<or> (\<exists>q \<in> set (comments s). Some (c_id q) = p_parent_id \<and> series_id q = sid)"
  shows "\<exists>row. create_comment s now (Some c) (Some n) p_author_email (Some sid)
                  p_episode_id p_parent_id = Inr (row, s\<lparr>comments := comments s @ [row]\<rparr>)
     \<and> content row = trim c \<and> author_name row = trim n
     \<and> author_email row
         = (if null_or_blank p_author_email then None else Some (trim (the p_author_email)))
     \<and> series_id row = sid \<and> episode_id row = p_episode_id \<and> parent_id row = p_parent_id
     \<and> likes_count row = 0 \<and> created_at row = now \<and> updated_at row = now
     \<and> c_id row \<notin> c_id ` set (comments s)"
proof -
  let ?new = "new_comment s now (Some c) (Some n) p_author_email sid p_episode_id p_parent_id"
  have nb: "\<not> null_or_blank (Some c)" "\<not> null_or_blank (Some n)"
    using assms(1,3) by (simp_all add: null_or_blank_def)
  have ro: "references_ok s sid p_episode_id p_parent_id"
    using assms(6,7,8) by (auto simp: references_ok_iff)
  have ck: "comment_checks ?new"
    using assms(2,4,5) by (simp add: comment_checks_new [OF nb])
  have "create_comment s now (Some c) (Some n) p_author_email (Some sid) p_episode_id p_parent_id
          = Inr (?new, s\<lparr>comments := comments s @ [?new]\<rparr>)"
    using ck by (simp add: create_comment_valid [OF nb ro] Let_def)
  moreover have "c_id ?new \<notin> c_id ` set (comments s)"
    using gen_random_uuid_fresh [of "map c_id (comments s)"] by (simp add: new_comment_def)
  ultimately show ?thesis
    by (intro exI [of _ ?new]) (simp add: new_comment_def)
qed

theorem create_comment_succeeds_witness:
  "\<exists>row. create_comment empty_store 10 (Some '' Great episode! '') (Some ''Alex'') (Some ''  '')
            (Some 1) None None = Inr (row, empty_store\<lparr>comments := comments empty_store @ [row]\<rparr>)
     \<and> content row = ''Great episode!'' \<and> author_name row = ''Alex'' \<and> author_email row = None
     \<and> likes_count row = 0"
  using create_comment_succeeds [of "'' Great episode! ''" "''Alex''" "Some ''  ''" empty_store 1
      None None 10]
  by (fastforce simp: null_or_blank_def trim_def empty_store_def)

section \<open>Paginated retrieval\<close>

subsection \<open>The statement with its names resolved\<close>

text \<open>
  What \<open>comments_query\<close> computes: the facts below are about the statement alone, not
  about a call of the function.
\<close>

lemma filter_distinct_keys:
  "distinct ks \<Longrightarrow>
     filter (\<lambda>(p, n). k = p) (map (\<lambda>p. (p, f p)) ks) = (if k \<in> set ks then [(k, f k)] else [])"
  by (induction ks) auto

lemma replies_filter:
  "length (filter (\<lambda>c. parent_id c = Some p) (filter (\<lambda>c. parent_id c \<noteq> None) cs))
     = replies_of cs p"
  by (induction cs) (auto simp: replies_of_def)

lemma reply_counts_eq:
  "reply_counts cs = map (\<lambda>p. (p, replies_of cs p))
     (remdups (map (\<lambda>c. the (parent_id c)) (filter (\<lambda>c. parent_id c \<noteq> None) cs)))"
  by (simp only: reply_counts_def Let_def replies_filter)

lemma reply_keys:
  "k \<in> set (map (\<lambda>c. the (parent_id c)) (filter (\<lambda>c. parent_id c \<noteq> None) cs))
     \<longleftrightarrow> replies_of cs k \<noteq> 0"
proof -
  have "replies_of cs k \<noteq> 0 \<longleftrightarrow> (\<exists>c \<in> set cs. parent_id c = Some k)"
    by (auto simp: replies_of_def filter_empty_conv)
  also have "\<dots> \<longleftrightarrow> k \<in> set (map (\<lambda>c. the (parent_id c)) (filter (\<lambda>c. parent_id c \<noteq> None) cs))"
    by force
  finally show ?thesis by simp
qed

lemma reply_counts_lookup:
  "filter (\<lambda>(p, n). k = p) (reply_counts cs)
     = (if replies_of cs k \<noteq> 0 then [(k, replies_of cs k)] else [])"
  unfolding reply_counts_eq
  by (subst filter_distinct_keys) (simp_all only: distinct_remdups set_remdups reply_keys)

lemma left_join_eq: "left_join_reply_counts cs = map (\<lambda>c. (c, join_count cs c)) cs"
proof -
  have "(case filter (\<lambda>(p, n). c_id c = p) (reply_counts cs) of
                         [] \<Rightarrow> [(c, None)]
                       | ms \<Rightarrow> map (\<lambda>(p, n). (c, Some n)) ms) = [(c, join_count cs c)]" for c
    by (simp add: reply_counts_lookup join_count_def)
  then show ?thesis
    by (simp add: left_join_reply_counts_def)
qed

lemma select_row_join_count: "select_row (c, join_count cs c) = stats_row cs c"
  by (simp add: select_row_def stats_row_def join_count_def)

lemma insort_key_map:
  "insort_key f (h x) (map h ys) = map h (insort_key (\<lambda>y. f (h y)) x ys)"
  by (induction ys) auto

lemma sort_key_map: "sort_key f (map h xs) = map h (sort_key (\<lambda>y. f (h y)) xs)"
  by (induction xs) (simp_all add: insort_key_map)

lemma paginate_map: "paginate l off (map h xs) = map h (paginate l off xs)"
  by (simp add: paginate_def Let_def drop_map take_map split: option.splits)

lemma comments_query_eq:
  "comments_query s p_series_id p_episode_id p_limit p_offset =
     (if (case p_offset of None \<Rightarrow> False | Some off \<Rightarrow> off < 0)
        then Inl invalid_row_count_in_result_offset_clause
      else if (case p_limit of None \<Rightarrow> False | Some lim \<Rightarrow> lim < 0)
        then Inl invalid_row_count_in_limit_clause
      else Inr (map (stats_row (comments s))
                  (paginate p_limit p_offset
                     (sort_key (\<lambda>c. - created_at c)
                        (filter (where_clause p_series_id p_episode_id) (comments s))))))"
proof -
  let ?j = "\<lambda>c. (c, join_count (comments s) c)"
  have f: "filter (\<lambda>cn. where_clause p_series_id p_episode_id (fst cn)) (map ?j (comments s))
             = map ?j (filter (where_clause p_series_id p_episode_id) (comments s))"
    by (simp add: filter_map comp_def)
  have m: "map select_row (map ?j xs) = map (stats_row (comments s)) xs" for xs
    by (simp add: select_row_join_count)
  have p: "map select_row
             (case p_limit of None \<Rightarrow> drop (case p_offset of None \<Rightarrow> 0 | Some off \<Rightarrow> nat off) (map ?j xs)
              | Some lim \<Rightarrow> take (nat lim) (drop (case p_offset of None \<Rightarrow> 0 | Some off \<Rightarrow> nat off) (map ?j xs)))
           = map (stats_row (comments s)) (paginate p_limit p_offset xs)" for xs
    using paginate_map [of p_limit p_offset ?j xs] m [of "paginate p_limit p_offset xs"]
    by (simp add: paginate_def Let_def)
  show ?thesis
    unfolding comments_query_def Let_def left_join_eq f sort_key_map fst_conv p
    by simp
qed

lemma stats_row_simps [simp]:
  "c_id (stats_row cs c) = c_id c"
  "parent_id (stats_row cs c) = parent_id c"
  "created_at (stats_row cs c) = created_at c"
  "reply_count (stats_row cs c) = replies_of cs (c_id c)"
  "comment.truncate (stats_row cs c) = c"
  by (simp_all add: stats_row_def comment.defs comment_stats.defs)

lemma set_paginate: "set (paginate l off xs) \<subseteq> set xs"
proof -
  have "set (drop n xs) \<subseteq> set xs" "set (take m (drop n xs)) \<subseteq> set xs" for n m
    by (auto dest: in_set_dropD in_set_takeD)
  then show ?thesis
    by (simp add: paginate_def Let_def split: option.splits)
qed

lemma where_clause_iff:
  "where_clause p_series_id p_episode_id c \<longleftrightarrow>
     Some (series_id c) = p_series_id \<and> parent_id c = None
     \<and> (p_episode_id = None \<or> episode_id c = p_episode_id)"
  by (auto simp: where_clause_def)

lemmas get_eval =
  comments_query_def left_join_reply_counts_def reply_counts_def where_clause_def
  select_row_def Let_def

lemma thread_query:
  "comments_query thread_store (Some 1) None (Some 50) (Some 0)
     = Inr [comment.extend later_comment (comment_stats.fields 0),
            comment.extend demo_comment (comment_stats.fields 2)]"
  by (simp add: get_eval thread_store_def empty_store_def demo_comment_def reply_comment_def
      later_comment_def second_reply_def numeral_2_eq_2)

text \<open>
  Every row of the statement's result is a top-level comment of the store, with the number
  of comments whose parent it is.
\<close>

lemma comments_query_rows:
  assumes "comments_query s p_series_id p_episode_id p_limit p_offset = Inr rows"
    and "r \<in> set rows"
  shows "parent_id r = None
     \<and> reply_count r = length (filter (\<lambda>c. parent_id c = Some (c_id r)) (comments s))
     \<and> comment.truncate r \<in> set (comments s)"
proof -
  let ?top = "filter (where_clause p_series_id p_episode_id) (comments s)"
  from assms(1) have "rows = map (stats_row (comments s))
      (paginate p_limit p_offset (sort_key (\<lambda>c. - created_at c) ?top))"
    by (simp add: comments_query_eq split: if_splits)
  with assms(2) obtain c where r: "r = stats_row (comments s) c"
    and c: "c \<in> set (paginate p_limit p_offset (sort_key (\<lambda>c. - created_at c) ?top))"
    by auto
  from c have "c \<in> set (sort_key (\<lambda>c. - created_at c) ?top)"
    by (rule subsetD [OF set_paginate])
  then have "c \<in> set (comments s)" "where_clause p_series_id p_episode_id c"
    by simp_all
  then show ?thesis
    by (simp add: r where_clause_iff replies_of_def)
qed

text \<open>
  For a limit and an offset that are not negative, the statement's result is the top-level
  comments of the series (of the episode too, when one is given), newest first, without
  the first \<open>offset\<close> rows and cut after \<open>limit\<close> rows.
\<close>

lemma comments_query_page:
  assumes "0 \<le> lim" "0 \<le> off"
  shows "\<exists>rows all.
      comments_query s p_series_id p_episode_id (Some lim) (Some off) = Inr rows
    \<and> comments_query s p_series_id p_episode_id None None = Inr all
    \<and> mset (map comment.truncate all)
        = mset (filter (\<lambda>c. Some (series_id c) = p_series_id \<and> parent_id c = None
                           \<and> (p_episode_id = None \<or> episode_id c = p_episode_id)) (comments s))
    \<and> sorted_wrt (\<lambda>a b. created_at b \<le> created_at a) all
    \<and> rows = take (nat lim) (drop (nat off) all)
    \<and> length rows \<le> nat lim"
proof -
  let ?top = "filter (where_clause p_series_id p_episode_id) (comments s)"
  let ?sorted = "sort_key (\<lambda>c. - created_at c) ?top"
  let ?all = "map (stats_row (comments s)) ?sorted"
  let ?rows = "take (nat lim) (drop (nat off) ?all)"
  have r: "comments_query s p_series_id p_episode_id (Some lim) (Some off) = Inr ?rows"
    using assms by (simp add: comments_query_eq paginate_def take_map drop_map)
  have a: "comments_query s p_series_id p_episode_id None None = Inr ?all"
    by (simp add: comments_query_eq paginate_def)
  have "map comment.truncate ?all = ?sorted"
    by (simp add: comp_def)
  then have m: "mset (map comment.truncate ?all)
        = mset (filter (\<lambda>c. Some (series_id c) = p_series_id \<and> parent_id c = None
                           \<and> (p_episode_id = None \<or> episode_id c = p_episode_id)) (comments s))"
    by (simp add: where_clause_iff)
  have "sorted (map (\<lambda>c. - created_at c) ?sorted)"
    by (rule sorted_sort_key)
  then have so: "sorted_wrt (\<lambda>a b. created_at b \<le> created_at a) ?all"
    by (simp add: sorted_map sorted_wrt_map)
  have le: "length ?rows \<le> nat lim"
    by simp
  show ?thesis
    by (intro exI [of _ ?rows] exI [of _ ?all] conjI r a m so le refl)
qed

subsection \<open>What a call of the function does\<close>

lemma ambiguous_parent_id: "list_ex ambiguous_reference unqualified_references"
  by (simp add: ambiguous_reference_def unqualified_references_def returns_table_columns_def
      comments_columns_def)


text \<open>
  C5.  The claim says which rows a call returns, with the limit and the offset given or
  left to their defaults of 50 and 0.  Every such call raises, on the same ambiguous
  \<^verbatim>\<open>parent_id\<close>, before the query orders or cuts anything; on the store with two
  top-level comments the call with the defaults returns no page.
\<close>

theorem call_get_comments_with_stats_raises:
  "call_get_comments_with_stats s p_series_id p_episode_id p_limit p_offset = Inl ambiguous_column
   \<and> call_get_comments_with_stats thread_store (Some 1) (Given None) Omitted Omitted
       = Inl ambiguous_column"
  by (simp add: call_get_comments_with_stats_def get_comments_with_stats_def ambiguous_parent_id)

section \<open>Admin series-status update\<close>

text \<open>
  C6 as the claim states it fails on the \<^verbatim>\<open>NOT NULL\<close> column: with the expected code
  and the id of a series, a null status makes the update raise.
\<close>

theorem admin_update_series_status_null_status_counterexample:
  "list_ex (\<lambda>r. s_id r = 1) (series empty_store)
   \<and> admin_update_series_status empty_store 50 (Some ''Shivam2008'') (Some 1) None
       = Inl not_null_violation"
  by (simp add: admin_update_series_status_def empty_store_def)

text \<open>
  C6, amended.  With a code that is not null, \<open>admin_update_series_status\<close> raises,
  leaving the store as it was, exactly when the code differs from the expected one, or no
  series has the given id, or the status is null.  When it returns, the episodes, the
  comments and the likes are as before, every series with another id is as before, and
  the series with the given id differs only in its status, now the given one, and its
  \<^verbatim>\<open>updated_at\<close>, now the time of the call.
\<close>

theorem admin_update_series_status_fails_iff:
  "((\<exists>e. admin_update_series_status s now (Some code) p_series_id p_status = Inl e)
      \<longleftrightarrow> (code \<noteq> ''Shivam2008'' \<or> (\<forall>r \<in> set (series s). Some (s_id r) \<noteq> p_series_id)
           \<or> p_status = None))
   \<and> (\<forall>s'. admin_update_series_status s now (Some code) p_series_id p_status = Inr s'
         \<longrightarrow> (\<exists>st. p_status = Some st
               \<and> episodes s' = episodes s \<and> comments s' = comments s
               \<and> comment_likes s' = comment_likes s
               \<and> length (series s') = length (series s)
               \<and> (\<forall>i < length (series s).
                     series s' ! i =
                       (if Some (s_id (series s ! i)) = p_series_id
                        then (series s ! i)\<lparr>status := st, s_updated_at := now\<rparr>
                        else series s ! i))))"
proof -
  have f: "list_ex (\<lambda>r. Some (s_id r) = p_series_id) (series s)
             \<longleftrightarrow> \<not> (\<forall>r \<in> set (series s). Some (s_id r) \<noteq> p_series_id)"
    by (auto simp: list_ex_iff)
  have 1: "(\<exists>e. admin_update_series_status s now (Some code) p_series_id p_status = Inl e)
      \<longleftrightarrow> (code \<noteq> ''Shivam2008'' \<or> (\<forall>r \<in> set (series s). Some (s_id r) \<noteq> p_series_id)
           \<or> p_status = None)"
    unfolding admin_update_series_status_def Let_def f by auto
  have 2: "\<exists>st. p_status = Some st
               \<and> episodes s' = episodes s \<and> comments s' = comments s
               \<and> comment_likes s' = comment_likes s
               \<and> length (series s') = length (series s)
               \<and> (\<forall>i < length (series s).
                     series s' ! i =
                       (if Some (s_id (series s ! i)) = p_series_id
                        then (series s ! i)\<lparr>status := st, s_updated_at := now\<rparr>
                        else series s ! i))"
    if "admin_update_series_status s now (Some code) p_series_id p_status = Inr s'" for s'
  proof -
    from that have ok: "p_status \<noteq> None"
      and s': "s' = s\<lparr>series := map (\<lambda>r. if Some (s_id r) = p_series_id
                                   then r\<lparr>status := the p_status, s_updated_at := now\<rparr>
                                   else r) (series s)\<rparr>"
      by (auto simp: admin_update_series_status_def Let_def split: if_splits)
    from ok obtain st where st: "p_status = Some st" by auto
    show ?thesis
      by (rule exI [of _ st]) (simp add: s' st)
  qed
  from 1 2 show ?thesis by blast
qed

theorem admin_update_series_status_fails_iff_witness:
  "(\<exists>e. admin_update_series_status empty_store 50 (Some ''wrong-code'') (Some 1) (Some completed) = Inl e)
   \<and> (\<exists>e. admin_update_series_status empty_store 50 (Some ''Shivam2008'') (Some 2) (Some completed) = Inl e)
   \<and> admin_update_series_status empty_store 50 (Some ''Shivam2008'') (Some 1) (Some completed)
       = Inr completed_store
   \<and> comments completed_store = comments empty_store
   \<and> length (series completed_store) = length (series empty_store)"
proof -
  have ok: "admin_update_series_status empty_store 50 (Some ''Shivam2008'') (Some 1) (Some completed)
       = Inr completed_store"
    by (simp add: admin_update_series_status_def empty_store_def completed_store_def)
  from admin_update_series_status_fails_iff
    [of empty_store 50 "''wrong-code''" "Some 1" "Some completed"]
  have a: "\<exists>e. admin_update_series_status empty_store 50 (Some ''wrong-code'') (Some 1) (Some completed) = Inl e"
    by simp
  from admin_update_series_status_fails_iff
    [of empty_store 50 "''Shivam2008''" "Some 2" "Some completed"]
  have b: "\<exists>e. admin_update_series_status empty_store 50 (Some ''Shivam2008'') (Some 2) (Some completed) = Inl e"
    by (simp add: empty_store_def)
  from admin_update_series_status_fails_iff
    [of empty_store 50 "''Shivam2008''" "Some 1" "Some completed"] ok
  have "comments completed_store = comments empty_store
   \<and> length (series completed_store) = length (series empty_store)"
    by blast
  with a b ok show ?thesis by simp
qed

text \<open>
  A null code is outside the amended claim.  The comparison \<^verbatim>\<open>admin_code <> 'Shivam2008'\<close>
  is then null, the \<^verbatim>\<open>IF\<close> does not raise, and the update goes through.
\<close>

lemma admin_update_series_status_null_code:
  "admin_update_series_status empty_store 50 None (Some 1) (Some completed) = Inr completed_store"
  by (simp add: admin_update_series_status_def empty_store_def completed_store_def)

section \<open>Invariants of the reachable stores\<close>

subsection \<open>Auxiliary facts\<close>

lemma insert_comment_likes:
  "insert_comment s now a b c d e f = Inr (r, s') \<Longrightarrow> comment_likes s' = comment_likes s"
  by (auto simp: insert_comment_def Let_def split: if_splits)

lemma create_comment_likes:
  "create_comment s now p1 p2 p3 p4 p5 p6 = Inr (r, s') \<Longrightarrow> comment_likes s' = comment_likes s"
  by (auto simp: create_comment_def split: if_splits option.splits dest: insert_comment_likes)

lemma admin_likes:
  "admin_update_series_status s now p1 p2 p3 = Inr s' \<Longrightarrow> comment_likes s' = comment_likes s"
  by (auto simp: admin_update_series_status_def Let_def split: if_splits)

lemma reachable_likes_unique: "reachable s \<Longrightarrow> likes_unique s"
proof (induction rule: reachable.induct)
  case (initial s)
  then show ?case by (simp add: likes_unique_def)
next
  case (created s now p1 p2 p3 p4 p5 p6 r s')
  then show ?case by (simp add: likes_unique_def create_comment_likes)
next
  case (toggled s now p1 p2 t s')
  then show ?case by (blast intro: toggle_preserves_likes_unique)
next
  case (admin s now p1 p2 p3 s')
  then show ?case by (simp add: likes_unique_def admin_likes)
qed

lemma reachable_demo: "reachable demo_store"
  by (rule reachable.created [OF reachable.initial create_demo]) (simp_all add: empty_store_def)

lemma reachable_reply: "reachable reply_store"
  by (rule reachable.created [OF reachable_demo create_reply])

lemma parents_in_series_iff:
  "parents_in_series s \<longleftrightarrow>
     (\<forall>c \<in> set (comments s). \<forall>p. parent_id c = Some p \<longrightarrow>
        (\<exists>q \<in> set (comments s). c_id q = p \<and> series_id q = series_id c))"
  by (auto simp: parents_in_series_def list_all_iff list_ex_iff split: option.splits)

lemma create_preserves_parents:
  assumes "parents_in_series s"
    and "create_comment s now p1 p2 p3 p4 p5 p6 = Inr (row, s')"
  shows "parents_in_series s'"
proof -
  from create_comment_Inr [OF assms(2)] obtain sid where
    ro: "references_ok s sid p5 p6"
    and row: "row = new_comment s now p1 p2 p3 sid p5 p6"
    and s': "s' = s\<lparr>comments := comments s @ [row]\<rparr>"
    by blast
  have new: "\<exists>q \<in> set (comments s). c_id q = p \<and> series_id q = series_id row"
    if "parent_id row = Some p" for p
    using that ro by (auto simp: row new_comment_def references_ok_def list_ex_iff)
  show ?thesis
    using assms(1) new unfolding parents_in_series_iff s' by auto
qed

lemma toggle_preserves_parents:
  assumes "parents_in_series s"
    and "toggle_comment_like s now p1 p2 = Inr (r, s')"
  shows "parents_in_series s'"
proof -
  from toggle_comments [OF assms(2)] obtain cid d where
    "comments s' = map (bump cid d now) (comments s)"
    by blast
  then show ?thesis
    using assms(1) unfolding parents_in_series_iff by force
qed

lemma admin_comments:
  "admin_update_series_status s now p1 p2 p3 = Inr s' \<Longrightarrow> comments s' = comments s"
  by (auto simp: admin_update_series_status_def Let_def split: if_splits)

lemma reachable_parents: "reachable s \<Longrightarrow> parents_in_series s"
proof (induction rule: reachable.induct)
  case (initial s)
  then show ?case by (simp add: parents_in_series_def)
next
  case (created s now p1 p2 p3 p4 p5 p6 r s')
  then show ?case by (blast intro: create_preserves_parents)
next
  case (toggled s now p1 p2 t s')
  then show ?case by (blast intro: toggle_preserves_parents)
next
  case (admin s now p1 p2 p3 s')
  from admin_comments [OF admin.hyps(2)] admin.IH show ?case
    by (simp add: parents_in_series_iff)
qed

subsection \<open>One like row per pair\<close>

text \<open>
  C8.  Every store reachable through the procedures holds at most one
  \<^verbatim>\<open>comment_likes\<close> row per pair of comment id and user identifier, and a returning
  \<open>toggle_comment_like\<close>, on its like branch and on its unlike branch, takes a store with
  that property to one with that property.
\<close>

theorem comment_likes_unique_invariant:
  "(reachable s \<longrightarrow> likes_unique s)
   \<and> (\<forall>s0 now p_comment_id p_user_identifier r s1.
        likes_unique s0 \<longrightarrow> toggle_comment_like s0 now p_comment_id p_user_identifier = Inr (r, s1)
          \<longrightarrow> likes_unique s1)"
  using reachable_likes_unique toggle_preserves_likes_unique by blast

theorem comment_likes_unique_invariant_witness:
  "reachable liked_store \<and> likes_unique liked_store \<and> likes_unique unliked_store"
proof -
  have r: "reachable liked_store"
    by (rule reachable.toggled [OF reachable_demo demo_like])
  with comment_likes_unique_invariant [of liked_store] have u: "likes_unique liked_store"
    by blast
  with comment_likes_unique_invariant [of liked_store] demo_unlike
  have "likes_unique unliked_store" by blast
  with r u show ?thesis by simp
qed

subsection \<open>Depth of the reply tree\<close>

text \<open>
  C7 as the claim states it fails: \<open>create_comment\<close> tests that the parent exists under
  the series, not that the parent is a top-level comment.  A reply to a reply is accepted,
  and the store it leaves is reachable and is not a two-level tree.
\<close>

theorem create_comment_nested_reply_counterexample:
  "reachable reply_store
   \<and> create_comment reply_store 30 (Some ''Deeper'') (Some ''Cy'') None (Some 1) None (Some 2)
       = Inr (nested_comment, nested_store)
   \<and> reachable nested_store
   \<and> parent_id nested_comment = Some 2
   \<and> find (\<lambda>q. c_id q = 2) (comments nested_store) = Some reply_comment
   \<and> parent_id reply_comment = Some 1
   \<and> \<not> two_level nested_store"
proof -
  have "reachable nested_store"
    by (rule reachable.created [OF reachable_reply create_nested])
  moreover have "\<not> two_level nested_store"
    by (simp add: two_level_def nested_store_def demo_comment_def reply_comment_def
        nested_comment_def)
  moreover have "find (\<lambda>q. c_id q = 2) (comments nested_store) = Some reply_comment"
    by (simp add: nested_store_def demo_comment_def reply_comment_def)
  ultimately show ?thesis
    using reachable_reply create_nested by (simp add: nested_comment_def reply_comment_def)
qed

text \<open>
  C7, amended.  Every comment that \<open>create_comment\<close> accepts with a non-null parent id
  has a parent comment in the store, of the same series as the comment; and in every
  store reachable through the procedures every reply has such a parent.  The depth of the
  reply tree is not bounded.
\<close>

theorem create_comment_parent_in_series:
  "(\<forall>row s'. create_comment s now p_content p_author_name p_author_email p_series_id
               p_episode_id (Some p) = Inr (row, s')
       \<longrightarrow> parent_id row = Some p
           \<and> (\<exists>q \<in> set (comments s). c_id q = p \<and> series_id q = series_id row))
   \<and> (reachable s \<longrightarrow>
        (\<forall>c \<in> set (comments s). \<forall>p. parent_id c = Some p \<longrightarrow>
           (\<exists>q \<in> set (comments s). c_id q = p \<and> series_id q = series_id c)))"
proof -
  have "parent_id row = Some p
           \<and> (\<exists>q \<in> set (comments s). c_id q = p \<and> series_id q = series_id row)"
    if "create_comment s now p_content p_author_name p_author_email p_series_id
               p_episode_id (Some p) = Inr (row, s')" for row s'
    using create_comment_Inr [OF that]
    by (auto simp: new_comment_def references_ok_def list_ex_iff)
  then show ?thesis
    using reachable_parents [of s] unfolding parents_in_series_iff by blast
qed

theorem create_comment_parent_in_series_witness:
  "create_comment demo_store 20 (Some ''Agreed'') (Some ''Bo'') None (Some 1) None (Some 1)
     = Inr (reply_comment, reply_store)
   \<and> parent_id reply_comment = Some 1
   \<and> (\<exists>q \<in> set (comments demo_store). c_id q = 1 \<and> series_id q = series_id reply_comment)
   \<and> reachable nested_store \<and> parents_in_series nested_store"
proof -
  have r: "reachable nested_store"
    by (rule reachable.created [OF reachable_reply create_nested])
  from create_comment_parent_in_series [of nested_store] r
  have "parents_in_series nested_store" unfolding parents_in_series_iff by blast
  moreover from create_comment_parent_in_series
      [of demo_store 20 "Some ''Agreed''" "Some ''Bo''" None "Some 1" None 1] create_reply
  have "parent_id reply_comment = Some 1
   \<and> (\<exists>q \<in> set (comments demo_store). c_id q = 1 \<and> series_id q = series_id reply_comment)"
    by blast
  ultimately show ?thesis using r create_reply by simp
qed

end
